theory Spec2Isabelle
  imports Complex_Main "HOL-Library.Sublist"
begin

section \<open>JavaScript errors\<close>

text \<open>
  The exceptions the modelled code can raise.  \<open>TypeError\<close> is a property read on
  \<open>undefined\<close> or \<open>null\<close>, \<open>SyntaxError\<close> is what the \<open>RegExp\<close> constructor
  throws on an ill-formed pattern, \<open>FetchFailed\<close> is a rejected \<open>fetch\<close> promise.
  \<open>Unmodelled\<close> is no exception of the program: it marks a pattern string outside the
  fragment of the \<open>RegExp\<close> constructor that the model parses.
\<close>

datatype error = TypeError | SyntaxError | FetchFailed | Unmodelled

section \<open>Rate limiter (background.js, rateLimiter)\<close>

type_synonym user_id = string
type_synonym action = string

text \<open>One entry of \<open>rateLimiter.limits\<close>: \<open>{ max, window }\<close>.\<close>

record limit =
  max_l :: nat
  window :: int

text \<open>
  The object \<open>rateLimiter\<close>: \<open>actions[userId][action]\<close> is an array of the times
  (\<open>Date.now()\<close>, milliseconds) of the admitted calls, \<open>limits[action]\<close> the
  configured limit.  Keys are taken to be own properties of the objects.
\<close>

record rateLimiter =
  actions :: "user_id \<rightharpoonup> (action \<rightharpoonup> int list)"
  limits :: "action \<rightharpoonup> limit"

definition limits_table :: "action \<rightharpoonup> limit" where
  "limits_table =
     [''comment'' \<mapsto> \<lparr>max_l = 10, window = 60000\<rparr>,
      ''like'' \<mapsto> \<lparr>max_l = 30, window = 60000\<rparr>,
      ''reply'' \<mapsto> \<lparr>max_l = 20, window = 60000\<rparr>]"

definition rateLimiter_init :: "(action \<rightharpoonup> limit) \<Rightarrow> rateLimiter" where
  "rateLimiter_init L = \<lparr>actions = Map.empty, limits = L\<rparr>"

text \<open>\<open>this.actions[userId]\<close> after the first \<open>if\<close> of \<open>check\<close>.\<close>

definition user_actions :: "rateLimiter \<Rightarrow> user_id \<Rightarrow> (action \<rightharpoonup> int list)" where
  "user_actions rl userId = (case actions rl userId of None \<Rightarrow> Map.empty | Some m \<Rightarrow> m)"

text \<open>\<open>this.actions[userId][action]\<close> after the second \<open>if\<close> of \<open>check\<close>.\<close>

definition recorded :: "rateLimiter \<Rightarrow> user_id \<Rightarrow> action \<Rightarrow> int list" where
  "recorded rl userId act = (case user_actions rl userId act of None \<Rightarrow> [] | Some ts \<Rightarrow> ts)"

definition set_recorded :: "rateLimiter \<Rightarrow> user_id \<Rightarrow> action \<Rightarrow> int list \<Rightarrow> rateLimiter" where
  "set_recorded rl userId act ts =
     rl\<lparr>actions := (actions rl)(userId \<mapsto> (user_actions rl userId)(act \<mapsto> ts))\<rparr>"

text \<open>
  \<open>check(userId, action)\<close>, with the value of \<open>Date.now()\<close> as the argument \<open>now\<close>.
  The two arrays are created first; an action without an entry in \<open>limits\<close> then makes
  \<open>limit.window\<close> a read on \<open>undefined\<close>, which throws.
\<close>

definition check :: "rateLimiter \<Rightarrow> user_id \<Rightarrow> action \<Rightarrow> int \<Rightarrow> (error + bool) \<times> rateLimiter" where
  "check rl userId act now =
     (let ts = recorded rl userId act in
      case limits rl act of
        None \<Rightarrow> (Inl TypeError, set_recorded rl userId act ts)
      | Some lm \<Rightarrow>
          (let ts' = filter (\<lambda>time. now - time < window lm) ts in
           if length ts' \<ge> max_l lm
           then (Inr False, set_recorded rl userId act ts')
           else (Inr True, set_recorded rl userId act (ts' @ [now]))))"

text \<open>A sequence of calls \<open>(userId, action, Date.now())\<close>, in order.\<close>

fun check_all :: "rateLimiter \<Rightarrow> (user_id \<times> action \<times> int) list \<Rightarrow> (error + bool) list \<times> rateLimiter" where
  "check_all rl [] = ([], rl)"
| "check_all rl ((userId, act, now) # cs) =
     (let (r, rl') = check rl userId act now;
          (rs, rl'') = check_all rl' cs
      in (r # rs, rl''))"

text \<open>The times of the admitted calls of one actor and action kind in a sequence of calls.\<close>

fun admissions :: "(user_id \<times> action \<times> int) list \<Rightarrow> (error + bool) list \<Rightarrow> user_id \<Rightarrow> action \<Rightarrow> int list" where
  "admissions ((u, a, t) # cs) (r # rs) userId act =
     (if u = userId \<and> a = act \<and> r = Inr True then t # admissions cs rs userId act
      else admissions cs rs userId act)"
| "admissions _ _ userId act = []"


text \<open>The invariant of the rate windows: no list is longer than the configured maximum.\<close>

definition bounded :: "rateLimiter \<Rightarrow> bool" where
  "bounded rl \<longleftrightarrow> (\<forall>u a lm. limits rl a = Some lm \<longrightarrow> length (recorded rl u a) \<le> max_l lm)"

section \<open>Strings\<close>

text \<open>
  A JavaScript string is a sequence of UTF-16 code units.  The model has the code units
  below 256 (the Latin-1 range), which is the type \<open>char\<close>; \<open>code c\<close> is the code unit.
\<close>

definition code :: "char \<Rightarrow> nat" where
  "code c = of_char c"

text \<open>
  Adding 32 to a code unit whose bit 5 is clear sets that bit, and subtracting 32 from one
  whose bit 5 is set clears it: the two cases the letters below need.
\<close>

fun set_bit5 :: "char \<Rightarrow> char" where
  "set_bit5 (Char b0 b1 b2 b3 b4 b5 b6 b7) = Char b0 b1 b2 b3 b4 True b6 b7"

fun clear_bit5 :: "char \<Rightarrow> char" where
  "clear_bit5 (Char b0 b1 b2 b3 b4 b5 b6 b7) = Char b0 b1 b2 b3 b4 False b6 b7"

text \<open>
  \<open>String.prototype.toLowerCase\<close>, one code unit at a time: the upper-case letters are
  \<open>A\<close> to \<open>Z\<close> and \<open>0xC0\<close> to \<open>0xDE\<close> without \<open>0xD7\<close>, each 32 below its lower-case form.
\<close>

definition lower_char :: "char \<Rightarrow> char" where
  "lower_char c =
     (let n = code c in
      if (65 \<le> n \<and> n \<le> 90) \<or> (192 \<le> n \<and> n \<le> 222 \<and> n \<noteq> 215) then set_bit5 c else c)"

definition toLowerCase :: "string \<Rightarrow> string" where
  "toLowerCase s = map lower_char s"

text \<open>
  \<open>Canonicalize\<close> of the regular expression semantics under the \<open>i\<close> flag: the upper-case
  form of a code unit, when that is again a single code unit of the model (the upper-case
  forms of \<open>0xB5\<close>, \<open>0xDF\<close> and \<open>0xFF\<close> are not, and no other code unit shares them).
\<close>

definition canonicalize :: "bool \<Rightarrow> char \<Rightarrow> char" where
  "canonicalize ignoreCase c =
     (if ignoreCase
      then (let n = code c in
            if (97 \<le> n \<and> n \<le> 122) \<or> (224 \<le> n \<and> n \<le> 254 \<and> n \<noteq> 247) then clear_bit5 c else c)
      else c)"

text \<open>WhiteSpace and LineTerminator code units: what \<open>\s\<close> matches and \<open>trim\<close> strips.\<close>

definition is_white_space :: "char \<Rightarrow> bool" where
  "is_white_space c \<longleftrightarrow> code c \<in> {9, 10, 11, 12, 13, 32, 160}"

definition is_line_terminator :: "char \<Rightarrow> bool" where
  "is_line_terminator c \<longleftrightarrow> code c \<in> {10, 13}"

definition is_digit :: "char \<Rightarrow> bool" where
  "is_digit c \<longleftrightarrow> (let n = code c in 48 \<le> n \<and> n \<le> 57)"

definition is_word_char :: "char \<Rightarrow> bool" where
  "is_word_char c \<longleftrightarrow>
     (let n = code c in
      (97 \<le> n \<and> n \<le> 122) \<or> (65 \<le> n \<and> n \<le> 90) \<or> (48 \<le> n \<and> n \<le> 57) \<or> n = 95)"

definition trim :: "string \<Rightarrow> string" where
  "trim s = rev (dropWhile is_white_space (rev (dropWhile is_white_space s)))"

text \<open>\<open>String.prototype.includes\<close>.\<close>

fun includes_s :: "string \<Rightarrow> string \<Rightarrow> bool" where
  "includes_s [] w = (w = [])"
| "includes_s (c # s) w = (take (length w) (c # s) = w \<or> includes_s s w)"

text \<open>\<open>Array.prototype.join\<close>.\<close>

fun join :: "string list \<Rightarrow> string \<Rightarrow> string" where
  "join [] sep = []"
| "join [x] sep = x"
| "join (x # y # xs) sep = x @ sep @ join (y # xs) sep"

section \<open>Regular expressions\<close>

text \<open>
  The abstract syntax of the patterns that occur in the sources, and the backtracking
  matcher of the language specification for them.  A class item is a member of a bracket
  expression; \<open>\s\<close>, \<open>\w\<close> and \<open>\d\<close> outside brackets are one-item classes.
\<close>

datatype class_item = CChar char | CRange char char | CSpace | CWord | CDigit

datatype regex =
    Empty
  | Chr char
  | Dot
  | Class bool "class_item list"
  | Seq regex regex
  | Group nat regex
  | Backref nat
  | Repeat nat "nat option" regex
  | WordBoundary
  | LineStart
  | LineEnd

abbreviation Star :: "regex \<Rightarrow> regex" where
  "Star r \<equiv> Repeat 0 None r"

abbreviation Plus :: "regex \<Rightarrow> regex" where
  "Plus r \<equiv> Repeat 1 None r"

abbreviation Opt :: "regex \<Rightarrow> regex" where
  "Opt r \<equiv> Repeat 0 (Some 1) r"

fun seq :: "regex list \<Rightarrow> regex" where
  "seq [] = Empty"
| "seq [r] = r"
| "seq (r # rs) = Seq r (seq rs)"

fun item_has :: "class_item \<Rightarrow> char \<Rightarrow> bool" where
  "item_has (CChar a) c = (c = a)"
| "item_has (CRange lo hi) c = (code lo \<le> code c \<and> code c \<le> code hi)"
| "item_has CSpace c = is_white_space c"
| "item_has CWord c = is_word_char c"
| "item_has CDigit c = is_digit c"

text \<open>
  The code units with the canonical form of \<open>c\<close>: a class matches \<open>c\<close> when it has a member
  whose canonical form is that of \<open>c\<close>.
\<close>

definition case_variants :: "bool \<Rightarrow> char \<Rightarrow> char list" where
  "case_variants ignoreCase c =
     filter (\<lambda>a. canonicalize ignoreCase a = canonicalize ignoreCase c)
       [c, canonicalize ignoreCase c, lower_char c]"

definition class_has :: "bool \<Rightarrow> class_item list \<Rightarrow> char \<Rightarrow> bool" where
  "class_has ignoreCase items c \<longleftrightarrow>
     (\<exists>a \<in> set (case_variants ignoreCase c). \<exists>item \<in> set items. item_has item a)"

text \<open>The numbers of the capturing groups inside a pattern.\<close>

fun groups :: "regex \<Rightarrow> nat list" where
  "groups (Seq r1 r2) = groups r1 @ groups r2"
| "groups (Group n r) = n # groups r"
| "groups (Repeat mn mx r) = groups r"
| "groups _ = []"

fun rsize :: "regex \<Rightarrow> nat" where
  "rsize (Seq r1 r2) = Suc (rsize r1 + rsize r2)"
| "rsize (Group n r) = Suc (rsize r)"
| "rsize (Repeat mn mx r) = Suc (rsize r)"
| "rsize _ = 0"

fun rmin :: "regex \<Rightarrow> nat" where
  "rmin (Repeat mn mx r) = mn"
| "rmin _ = 0"

text \<open>
  A position in the input is the code unit before it (none at index 0) and the rest of
  the input; the captures map a group number to the text it matched last.
\<close>

type_synonym cursor = "char option \<times> string"
type_synonym captures = "nat \<rightharpoonup> string"

definition advance :: "cursor \<Rightarrow> nat \<Rightarrow> cursor" where
  "advance cur n =
     (if n = 0 then cur else (Some (snd cur ! (n - 1)), drop n (snd cur)))"

definition clear :: "nat list \<Rightarrow> captures \<Rightarrow> captures" where
  "clear ns caps = (\<lambda>n. if n \<in> set ns then None else caps n)"

definition at_word_char :: "char option \<Rightarrow> bool" where
  "at_word_char c = (case c of None \<Rightarrow> False | Some x \<Rightarrow> is_word_char x)"

text \<open>
  \<open>matches r ignoreCase cur caps\<close> lists the ways \<open>r\<close> can match at \<open>cur\<close>, in the order
  the backtracking matcher tries them: each is the position after the match and the
  captures.  A quantifier is greedy; each of its iterations starts with the captures of
  its body cleared, and once the minimum is reached an iteration that consumes nothing is
  abandoned (the matcher's positions only move forward, so "the end index did not change"
  is "the rest is not shorter").
\<close>

function matches :: "regex \<Rightarrow> bool \<Rightarrow> cursor \<Rightarrow> captures \<Rightarrow> (cursor \<times> captures) list" where
  "matches Empty ic cur caps = [(cur, caps)]"
| "matches (Chr a) ic cur caps =
     (case snd cur of
        [] \<Rightarrow> []
      | c # cs \<Rightarrow> if canonicalize ic c = canonicalize ic a then [((Some c, cs), caps)] else [])"
| "matches Dot ic cur caps =
     (case snd cur of
        [] \<Rightarrow> []
      | c # cs \<Rightarrow> if is_line_terminator c then [] else [((Some c, cs), caps)])"
| "matches (Class negated items) ic cur caps =
     (case snd cur of
        [] \<Rightarrow> []
      | c # cs \<Rightarrow> if class_has ic items c \<noteq> negated then [((Some c, cs), caps)] else [])"
| "matches (Seq r1 r2) ic cur caps =
     concat (map (\<lambda>(cur', caps'). matches r2 ic cur' caps') (matches r1 ic cur caps))"
| "matches (Group n r) ic cur caps =
     map (\<lambda>(cur', caps').
            (cur', caps'(n \<mapsto> take (length (snd cur) - length (snd cur')) (snd cur))))
       (matches r ic cur caps)"
| "matches (Backref n) ic cur caps =
     (case caps n of
        None \<Rightarrow> [(cur, caps)]
      | Some s \<Rightarrow>
          if length s \<le> length (snd cur) \<and>
             map (canonicalize ic) (take (length s) (snd cur)) = map (canonicalize ic) s
          then [(advance cur (length s), caps)] else [])"
| "matches (Repeat mn mx r) ic cur caps =
     (if mx = Some 0 then [(cur, caps)]
      else
        (let again =
           concat (map (\<lambda>(cur', caps').
                     if mn = 0 \<and> \<not> length (snd cur') < length (snd cur) then []
                     else matches (Repeat (mn - 1) (map_option (\<lambda>k. k - 1) mx) r) ic cur' caps')
                   (matches r ic cur (clear (groups r) caps)))
         in if mn \<noteq> 0 then again else again @ [(cur, caps)]))"
| "matches WordBoundary ic cur caps =
     (if at_word_char (fst cur) \<noteq> at_word_char (case snd cur of [] \<Rightarrow> None | c # cs \<Rightarrow> Some c)
      then [(cur, caps)] else [])"
| "matches LineStart ic cur caps = (if fst cur = None then [(cur, caps)] else [])"
| "matches LineEnd ic cur caps = (if snd cur = [] then [(cur, caps)] else [])"
  by pat_completeness auto
termination
  by (relation "inv_image (less_than <*lex*> less_than <*lex*> less_than)
                  (\<lambda>(r, ic, cur, caps). (rsize r, rmin r, length (snd cur)))")
     auto

declare matches.simps [simp del]


text \<open>
  The most code units a pattern can consume, when there is a bound (\<open>None\<close> otherwise),
  and the patterns whose capturing groups all consume at most \<open>b\<close> code units.
\<close>

fun width :: "regex \<Rightarrow> nat option" where
  "width Empty = Some 0"
| "width (Chr a) = Some 1"
| "width Dot = Some 1"
| "width (Class negated items) = Some 1"
| "width (Seq r1 r2) = (case (width r1, width r2) of (Some a, Some b) \<Rightarrow> Some (a + b) | _ \<Rightarrow> None)"
| "width (Group n r) = width r"
| "width (Backref n) = None"
| "width (Repeat mn mx r) = (case (mx, width r) of (Some k, Some a) \<Rightarrow> Some (k * a) | _ \<Rightarrow> None)"
| "width WordBoundary = Some 0"
| "width LineStart = Some 0"
| "width LineEnd = Some 0"

fun groups_within :: "nat \<Rightarrow> regex \<Rightarrow> bool" where
  "groups_within b (Seq r1 r2) = (groups_within b r1 \<and> groups_within b r2)"
| "groups_within b (Group n r) = ((case width r of None \<Rightarrow> False | Some a \<Rightarrow> a \<le> b) \<and> groups_within b r)"
| "groups_within b (Repeat mn mx r) = groups_within b r"
| "groups_within b r = True"

definition captures_within :: "nat \<Rightarrow> captures \<Rightarrow> bool" where
  "captures_within b caps \<longleftrightarrow> (\<forall>n s. caps n = Some s \<longrightarrow> length s \<le> b)"

text \<open>
  One attempt to match at index \<open>i\<close> of the input \<open>s\<close>: the first way the matcher
  finds, as the end index and the captures.
\<close>

definition match_at :: "regex \<Rightarrow> bool \<Rightarrow> string \<Rightarrow> nat \<Rightarrow> (nat \<times> captures) option" where
  "match_at r ic s i =
     (case matches r ic (advance (None, s) i) Map.empty of
        [] \<Rightarrow> None
      | (cur', caps') # other \<Rightarrow> Some (length s - length (snd cur'), caps'))"

text \<open>
  The search loop of \<open>RegExpBuiltinExec\<close>: the leftmost index from \<open>i\<close> on where the
  pattern matches, with the end index and the captures.
\<close>

function exec_from :: "regex \<Rightarrow> bool \<Rightarrow> string \<Rightarrow> nat \<Rightarrow> (nat \<times> nat \<times> captures) option" where
  "exec_from r ic s i =
     (if length s < i then None
      else case match_at r ic s i of
             Some (e, caps) \<Rightarrow> Some (i, e, caps)
           | None \<Rightarrow> exec_from r ic s (Suc i))"
  by pat_completeness auto
termination
  by (relation "measure (\<lambda>(r, ic, s, i). Suc (length s) - i)") auto

declare exec_from.simps [simp del]

text \<open>A \<open>RegExp\<close> object: the pattern, the flags \<open>g\<close> and \<open>i\<close>, and \<open>lastIndex\<close>.\<close>

record regexp =
  source :: regex
  global :: bool
  ignoreCase :: bool
  lastIndex :: nat

definition regexp :: "regex \<Rightarrow> bool \<Rightarrow> bool \<Rightarrow> regexp" where
  "regexp r g i = \<lparr>source = r, global = g, ignoreCase = i, lastIndex = 0\<rparr>"

text \<open>
  \<open>RegExp.prototype.exec\<close>: a global expression starts at its \<open>lastIndex\<close> and leaves
  the end of the match there, or 0 when nothing matches.
\<close>

definition regexp_exec :: "regexp \<Rightarrow> string \<Rightarrow> (nat \<times> nat \<times> captures) option \<times> regexp" where
  "regexp_exec R s =
     (case exec_from (source R) (ignoreCase R) s (if global R then lastIndex R else 0) of
        None \<Rightarrow> (None, if global R then R\<lparr>lastIndex := 0\<rparr> else R)
      | Some (i, e, caps) \<Rightarrow> (Some (i, e, caps), if global R then R\<lparr>lastIndex := e\<rparr> else R))"

text \<open>\<open>RegExp.prototype.test\<close>.\<close>

definition test :: "regexp \<Rightarrow> string \<Rightarrow> bool \<times> regexp" where
  "test R s = (case regexp_exec R s of (None, R') \<Rightarrow> (False, R') | (Some m, R') \<Rightarrow> (True, R'))"

text \<open>
  \<open>String.prototype.replace\<close> with a global expression: \<open>lastIndex\<close> is set to 0, the
  matches are collected from left to right (after an empty match the search moves on by
  one), and \<open>lastIndex\<close> is 0 again at the end.  A match never ends before it starts, so
  "the match is empty" is \<open>e \<le> pos\<close>.
\<close>

function replace_spans :: "regex \<Rightarrow> bool \<Rightarrow> string \<Rightarrow> nat \<Rightarrow> (nat \<times> nat) list" where
  "replace_spans r ic s pos =
     (if length s < pos then []
      else case match_at r ic s pos of
             None \<Rightarrow> replace_spans r ic s (Suc pos)
           | Some (e, caps) \<Rightarrow> (pos, e) # replace_spans r ic s (if e \<le> pos then Suc pos else e))"
  by pat_completeness auto
termination
  by (relation "measure (\<lambda>(r, ic, s, pos). Suc (length s) - pos)") auto

declare replace_spans.simps [simp del]

fun substitute :: "string \<Rightarrow> nat \<Rightarrow> (nat \<times> nat) list \<Rightarrow> (string \<Rightarrow> string) \<Rightarrow> string" where
  "substitute s p [] f = drop p s"
| "substitute s p ((i, e) # ms) f =
     take (i - p) (drop p s) @ f (take (e - i) (drop i s)) @ substitute s e ms f"

definition replace :: "string \<Rightarrow> regexp \<Rightarrow> (string \<Rightarrow> string) \<Rightarrow> string \<times> regexp" where
  "replace s R f =
     (if global R
      then (substitute s 0 (replace_spans (source R) (ignoreCase R) s 0) f, R\<lparr>lastIndex := 0\<rparr>)
      else (case exec_from (source R) (ignoreCase R) s 0 of
              None \<Rightarrow> (s, R)
            | Some (i, e, caps) \<Rightarrow> (substitute s 0 [(i, e)] f, R)))"

text \<open>
  \<open>new RegExp(pattern, 'gi')\<close> for the patterns made of pattern characters and the
  quantifier \<open>*\<close>, which is what the words of \<open>profanityList\<close> are.  A \<open>*\<close> with no atom
  before it is "nothing to repeat", a \<open>SyntaxError\<close>.  Any other syntax character is
  outside this fragment and reported as \<open>Unmodelled\<close>.
\<close>

definition syntax_character :: "char \<Rightarrow> bool" where
  "syntax_character c \<longleftrightarrow> code c \<in> {94, 36, 92, 46, 42, 43, 63, 40, 41, 91, 93, 123, 125, 124}"

fun parse_pattern :: "string \<Rightarrow> error + regex" where
  "parse_pattern [] = Inr Empty"
| "parse_pattern [c] =
     (if c = CHR ''*'' then Inl SyntaxError
      else if syntax_character c then Inl Unmodelled
      else Inr (Chr c))"
| "parse_pattern (c # q # cs) =
     (if c = CHR ''*'' then Inl SyntaxError
      else if syntax_character c then Inl Unmodelled
      else if q = CHR ''*'' then map_sum id (Seq (Star (Chr c))) (parse_pattern cs)
      else map_sum id (Seq (Chr c)) (parse_pattern (q # cs)))"


definition RegExp_new :: "string \<Rightarrow> bool \<Rightarrow> bool \<Rightarrow> error + regexp" where
  "RegExp_new pattern g i = map_sum id (\<lambda>r. regexp r g i) (parse_pattern pattern)"

section \<open>Moderation engine (content-filter.js, ContentFilter)\<close>

text \<open>
  The object built by the constructor: the word list and the two lists of \<open>RegExp\<close>
  objects, which carry their \<open>lastIndex\<close> from one call to the next.
\<close>

record ContentFilter =
  profanityList :: "string list"
  patterns :: "regexp list"
  spamPatterns :: "regexp list"

abbreviation white_space :: regex where
  "white_space \<equiv> Class False [CSpace]"

abbreviation word_char :: regex where
  "word_char \<equiv> Class False [CWord]"

abbreviation digit :: regex where
  "digit \<equiv> Class False [CDigit]"

definition ContentFilter_new :: ContentFilter where
  "ContentFilter_new =
     \<lparr>profanityList =
        [''fuck'', ''shit'', ''bitch'', ''ass'', ''damn'', ''cunt'',
         ''crap'', ''piss'', ''bastard'', ''slut'', ''whore'',
         ''n***a'', ''f****t'', ''r****d''],
      patterns =
        [regexp (seq [Plus (Chr CHR ''f''), Plus (Chr CHR ''u''), Plus (Chr CHR ''c''), Plus (Chr CHR ''k'')]) True True,
         regexp (seq [Plus (Chr CHR ''s''), Plus (Chr CHR ''h''), Plus (Chr CHR ''i''), Plus (Chr CHR ''t'')]) True True,
         regexp (seq [Plus (Chr CHR ''b''), Plus (Chr CHR ''i''), Plus (Chr CHR ''t''), Plus (Chr CHR ''c''),
                      Plus (Chr CHR ''h'')]) True True,
         regexp (seq [Plus (Chr CHR ''a''), Plus (Chr CHR ''s''), Plus (Chr CHR ''s''), Plus (Chr CHR ''h''),
                      Plus (Chr CHR ''o''), Plus (Chr CHR ''l''), Plus (Chr CHR ''e'')]) True True,
         regexp (seq [Plus (Chr CHR ''d''), Plus (Chr CHR ''a''), Plus (Chr CHR ''m''), Plus (Chr CHR ''n'')]) True True,
         regexp (seq [Chr CHR ''f'', Class False [CChar CHR ''u'', CChar CHR ''*'', CChar CHR ''@''],
                      Chr CHR ''c'', Chr CHR ''k'']) True True,
         regexp (seq [Chr CHR ''s'', Chr CHR ''h'', Class False [CChar CHR ''i'', CChar CHR ''*''],
                      Chr CHR ''t'']) True True,
         regexp (seq [Chr CHR ''b'', Class False [CChar CHR ''*'', CChar CHR ''i''], Chr CHR ''t'',
                      Chr CHR ''c'', Chr CHR ''h'']) True True,
         regexp (seq [Chr CHR ''f'', Star white_space, Chr CHR ''u'', Star white_space, Chr CHR ''c'',
                      Star white_space, Chr CHR ''k'']) True True,
         regexp (seq [Chr CHR ''s'', Star white_space, Chr CHR ''h'', Star white_space, Chr CHR ''i'',
                      Star white_space, Chr CHR ''t'']) True True],
      spamPatterns =
        [regexp (seq [Group 1 Dot, Repeat 10 None (Backref 1)]) True True,
         regexp (Group 1 (seq [Chr CHR ''h'', Chr CHR ''t'', Chr CHR ''t'', Chr CHR ''p'', Opt (Chr CHR ''s''),
                               Chr CHR '':'', Chr CHR ''/'', Chr CHR ''/'', Plus (Class True [CSpace])])) True True,
         regexp (seq [Group 1 (seq [WordBoundary, Plus word_char, WordBoundary]),
                      Repeat 3 None (Group 2 (seq [Plus white_space, Backref 1]))]) True True,
         regexp (Repeat 20 None (Class False [CRange CHR ''A'' CHR ''Z''])) True False]\<rparr>"

text \<open>The result object of \<open>checkProfanity\<close>.\<close>

record profanity_result =
  pr_isClean :: bool
  pr_filtered :: string
  pr_violations :: "string list"

definition stars :: "nat \<Rightarrow> string" where
  "stars n = replicate n CHR ''*''"

text \<open>
  The first loop of \<open>checkProfanity\<close>, over the word list.  The \<open>RegExp\<close> built for a
  word is a fresh object, dropped after the replacement.
\<close>

fun check_words :: "string list \<Rightarrow> string \<Rightarrow> profanity_result \<Rightarrow> error + profanity_result" where
  "check_words [] lowerText result = Inr result"
| "check_words (word # ws) lowerText result =
     (if includes_s lowerText word
      then (case RegExp_new word True True of
              Inl e \<Rightarrow> Inl e
            | Inr regex \<Rightarrow>
                check_words ws lowerText
                  \<lparr>pr_isClean = False,
                   pr_filtered = fst (replace (pr_filtered result) regex (\<lambda>m. stars (length word))),
                   pr_violations = pr_violations result @ [''Inappropriate language: '' @ word]\<rparr>)
      else check_words ws lowerText result)"

text \<open>
  The second loop of \<open>checkProfanity\<close>, over \<open>patterns\<close>: each replacement is made in
  \<open>text\<close>, the argument of \<open>checkProfanity\<close>.  The list returned holds the objects after
  the loop.
\<close>

fun check_patterns :: "regexp list \<Rightarrow> string \<Rightarrow> profanity_result \<Rightarrow> profanity_result \<times> regexp list" where
  "check_patterns [] text result = (result, [])"
| "check_patterns (pattern # ps) text result =
     (let (found, pattern1) = test pattern text in
      if found
      then (let (filtered, pattern2) = replace text pattern1 (\<lambda>m. stars (length m));
                (result', ps') =
                  check_patterns ps text
                    \<lparr>pr_isClean = False,
                     pr_filtered = filtered,
                     pr_violations = pr_violations result @ [''Inappropriate language detected'']\<rparr>
            in (result', pattern2 # ps'))
      else (let (result', ps') = check_patterns ps text result
            in (result', pattern1 # ps')))"

definition checkProfanity :: "ContentFilter \<Rightarrow> string \<Rightarrow> (error + profanity_result) \<times> ContentFilter" where
  "checkProfanity cf text =
     (case check_words (profanityList cf) (toLowerCase text)
             \<lparr>pr_isClean = True, pr_filtered = text, pr_violations = []\<rparr> of
        Inl e \<Rightarrow> (Inl e, cf)
      | Inr result \<Rightarrow>
          (let (result', ps') = check_patterns (patterns cf) text result
           in (Inr result', cf\<lparr>patterns := ps'\<rparr>)))"

text \<open>
  The loop of \<open>checkSpam\<close>; \<open>k\<close> is the index of \<open>pattern\<close> in \<open>spamPatterns\<close>, which is
  what the comparisons \<open>pattern === this.spamPatterns[0]\<close> to \<open>[3]\<close> find out.
\<close>

definition spam_message :: "nat \<Rightarrow> string list" where
  "spam_message k =
     (if k = 0 then [''Excessive repeated characters'']
      else if k = 1 then [''URLs not allowed'']
      else if k = 2 then [''Excessive repeated words'']
      else if k = 3 then [''Excessive capital letters'']
      else [])"

fun check_spam_patterns :: "regexp list \<Rightarrow> nat \<Rightarrow> string \<Rightarrow> bool \<times> string list \<Rightarrow> (bool \<times> string list) \<times> regexp list" where
  "check_spam_patterns [] k text result = (result, [])"
| "check_spam_patterns (pattern # ps) k text result =
     (let (found, pattern1) = test pattern text;
          (result', ps') =
            check_spam_patterns ps (Suc k) text
              (if found then (False, snd result @ spam_message k) else result)
      in (result', pattern1 # ps'))"

definition checkSpam :: "ContentFilter \<Rightarrow> string \<Rightarrow> (bool \<times> string list) \<times> ContentFilter" where
  "checkSpam cf text =
     (let (result, ps') = check_spam_patterns (spamPatterns cf) 0 text (True, [])
      in (result, cf\<lparr>spamPatterns := ps'\<rparr>))"

text \<open>The result object of \<open>filterContent\<close>.\<close>

datatype filter_action = Allow | Warn | Block

record verdict =
  isClean :: bool
  filteredText :: string
  violations :: "string list"
  action :: filter_action

definition filterContent :: "ContentFilter \<Rightarrow> string \<Rightarrow> (error + verdict) \<times> ContentFilter" where
  "filterContent cf text =
     (let result0 = \<lparr>isClean = True, filteredText = text, violations = [], action = Allow\<rparr> in
      case checkProfanity cf text of
        (Inl e, cf1) \<Rightarrow> (Inl e, cf1)
      | (Inr profanityCheck, cf1) \<Rightarrow>
          (let result1 =
                 (if \<not> pr_isClean profanityCheck
                  then \<lparr>isClean = False, filteredText = pr_filtered profanityCheck,
                        violations = violations result0 @ pr_violations profanityCheck, action = Block\<rparr>
                  else result0);
               (spamCheck, cf2) = checkSpam cf1 text;
               result2 =
                 (if \<not> fst spamCheck
                  then result1\<lparr>isClean := False, violations := violations result1 @ snd spamCheck,
                              action := Block\<rparr>
                  else result1);
               result3 =
                 (if length text > 500
                  then result2\<lparr>isClean := False,
                              violations := violations result2 @ [''Text too long (max 500 characters)''],
                              action := Block\<rparr>
                  else result2);
               result4 =
                 (if length (trim text) < 2
                  then result3\<lparr>isClean := False, violations := violations result3 @ [''Text too short''],
                              action := Block\<rparr>
                  else result3)
           in (Inr result4, cf2)))"

section \<open>Background script (background.js)\<close>

subsection \<open>Data\<close>

text \<open>\<open>currentUser\<close>: \<open>{ uid, token }\<close>.\<close>

record user =
  uid :: string
  token :: string

text \<open>
  The document \<open>users/{uid}\<close>; an absent \<open>displayName\<close> is \<open>None\<close>, an absent
  \<open>commentCount\<close> is 0 and an absent \<open>banned\<close> is \<open>False\<close>, as the code reads them.
\<close>

record user_data =
  displayName :: "string option"
  commentCount :: nat
  banned :: bool

text \<open>A document under \<open>comments/{videoId}\<close>, as \<open>handleSaveComment\<close> posts it.\<close>

record comment_data =
  comment_text :: string
  timestamp :: int
  authorId :: string
  authorName :: string
  likes :: nat
  createdAt :: int
  platform :: "string option"

record reply =
  reply_id :: string
  reply_text :: string
  reply_authorId :: string
  reply_authorName :: string
  reply_createdAt :: int

text \<open>
  A comment object of the background script: the document with its \<open>id\<close>, and the
  properties \<open>replies\<close> and \<open>likedByUser\<close> that \<open>handleLoadComments\<close> adds (\<open>None\<close> when
  the object has no such property, or holds \<open>null\<close>).
\<close>

record comment = comment_data +
  comment_id :: string
  replies :: "reply list option"
  likedByUser :: "bool option"

text \<open>
  \<open>chrome.storage.local\<close>: the keys \<open>userId\<close> and \<open>authToken\<close>, and one key
  \<open>comments_{videoId}\<close> for each cached list.
\<close>

record storage =
  stored_userId :: "string option"
  stored_authToken :: "string option"
  cached :: "string \<rightharpoonup> comment list"

subsection \<open>The remote store and the network\<close>

text \<open>
  Modelled from the spec: the remote document store is no code of this repository; section 6
  of the specification gives its protocol (\<open>GET path\<close>, \<open>PUT path body\<close>,
  \<open>POST path body\<close> answering the generated identity, \<open>DELETE path\<close>, over the paths
  \<open>users/{actorId}\<close>, \<open>comments/{contentKey}\<close>, \<open>replies/{annotationId}\<close>,
  \<open>likes/{annotationId}/{actorId}\<close>).  The store holds the children of a path in key
  order, a path without children reads as \<open>null\<close> (the empty list here), and it does what
  each request that reaches it asks.
\<close>

record remote =
  users :: "string \<rightharpoonup> user_data"
  comments_at :: "string \<Rightarrow> (string \<times> comment_data) list"
  replies_at :: "string \<Rightarrow> (string \<times> reply) list"
  likes_at :: "string \<Rightarrow> (string \<times> bool) list"
  generated :: "string list"

datatype request =
    GetUser string
  | PutCommentCount string nat
  | PostComment string comment_data
  | GetComments string
  | GetReplies string
  | GetLikes string
  | GetLike string string
  | PutLike string string
  | DeleteLike string string
  | SignUp
  | PutUser string

text \<open>
  The state of the background script and of what it talks to: the globals \<open>currentUser\<close>,
  \<open>rateLimiter\<close> and \<open>contentFilter\<close>, the local storage, the remote store, the requests
  issued so far, and two inputs from outside: \<open>net\<close> says for each coming \<open>fetch\<close> whether
  it is answered (\<open>True\<close>) or rejected, all being answered once the list is used up, and
  \<open>signup\<close> is what the identity service answers to an anonymous sign-up (\<open>None\<close> for
  an answer with \<open>error\<close>), \<open>random_digits\<close> the digits of
  \<open>Math.floor(Math.random() * 10000)\<close>.
\<close>

record world =
  currentUser :: "user option"
  limiter :: rateLimiter
  contentFilter :: ContentFilter
  storage :: storage
  remote :: remote
  issued :: "request list"
  net :: "bool list"
  signup :: "user option"
  random_digits :: string

text \<open>One \<open>fetch\<close>: the request is issued, and the network answers or rejects.\<close>

definition fetch :: "request \<Rightarrow> world \<Rightarrow> bool \<times> world" where
  "fetch rq w =
     (case net w of
        [] \<Rightarrow> (True, w\<lparr>issued := issued w @ [rq]\<rparr>)
      | ok # rest \<Rightarrow> (ok, w\<lparr>issued := issued w @ [rq], net := rest\<rparr>))"

fun update_key :: "'k \<Rightarrow> 'v \<Rightarrow> ('k \<times> 'v) list \<Rightarrow> ('k \<times> 'v) list" where
  "update_key k v [] = [(k, v)]"
| "update_key k v ((k', v') # kvs) = (if k' = k then (k, v) # kvs else (k', v') # update_key k v kvs)"

definition delete_key :: "'k \<Rightarrow> ('k \<times> 'v) list \<Rightarrow> ('k \<times> 'v) list" where
  "delete_key k kvs = filter (\<lambda>kv. fst kv \<noteq> k) kvs"

definition get_user :: "string \<Rightarrow> world \<Rightarrow> (error + user_data option) \<times> world" where
  "get_user u w =
     (case fetch (GetUser u) w of
        (False, w') \<Rightarrow> (Inl FetchFailed, w')
      | (True, w') \<Rightarrow> (Inr (users (remote w') u), w'))"

definition put_commentCount :: "string \<Rightarrow> nat \<Rightarrow> world \<Rightarrow> (error + unit) \<times> world" where
  "put_commentCount u n w =
     (case fetch (PutCommentCount u n) w of
        (False, w') \<Rightarrow> (Inl FetchFailed, w')
      | (True, w') \<Rightarrow>
          (Inr (),
           w'\<lparr>remote := (remote w')\<lparr>users :=
                 (users (remote w'))(u \<mapsto>
                    (case users (remote w') u of
                       None \<Rightarrow> \<lparr>displayName = None, commentCount = n, banned = False\<rparr>
                     | Some d \<Rightarrow> d\<lparr>commentCount := n\<rparr>))\<rparr>\<rparr>))"

text \<open>A \<open>POST\<close> answers the key the store generates, the \<open>name\<close> of the response.\<close>

definition fresh_key :: "remote \<Rightarrow> string" where
  "fresh_key r = CHR ''-'' # replicate (length (generated r)) CHR ''k''"

definition post_comment :: "string \<Rightarrow> comment_data \<Rightarrow> world \<Rightarrow> (error + string) \<times> world" where
  "post_comment videoId c w =
     (case fetch (PostComment videoId c) w of
        (False, w') \<Rightarrow> (Inl FetchFailed, w')
      | (True, w') \<Rightarrow>
          (let name = fresh_key (remote w') in
           (Inr name,
            w'\<lparr>remote := (remote w')\<lparr>
                  comments_at := (comments_at (remote w'))(videoId := comments_at (remote w') videoId @ [(name, c)]),
                  generated := generated (remote w') @ [name]\<rparr>\<rparr>)))"

definition get_comments :: "string \<Rightarrow> world \<Rightarrow> (error + (string \<times> comment_data) list) \<times> world" where
  "get_comments videoId w =
     (case fetch (GetComments videoId) w of
        (False, w') \<Rightarrow> (Inl FetchFailed, w')
      | (True, w') \<Rightarrow> (Inr (comments_at (remote w') videoId), w'))"

definition get_replies :: "string \<Rightarrow> world \<Rightarrow> (error + (string \<times> reply) list) \<times> world" where
  "get_replies commentId w =
     (case fetch (GetReplies commentId) w of
        (False, w') \<Rightarrow> (Inl FetchFailed, w')
      | (True, w') \<Rightarrow> (Inr (replies_at (remote w') commentId), w'))"

definition get_likes :: "string \<Rightarrow> world \<Rightarrow> (error + (string \<times> bool) list) \<times> world" where
  "get_likes commentId w =
     (case fetch (GetLikes commentId) w of
        (False, w') \<Rightarrow> (Inl FetchFailed, w')
      | (True, w') \<Rightarrow> (Inr (likes_at (remote w') commentId), w'))"

definition get_like :: "string \<Rightarrow> string \<Rightarrow> world \<Rightarrow> (error + bool option) \<times> world" where
  "get_like commentId u w =
     (case fetch (GetLike commentId u) w of
        (False, w') \<Rightarrow> (Inl FetchFailed, w')
      | (True, w') \<Rightarrow> (Inr (map_of (likes_at (remote w') commentId) u), w'))"

definition put_like :: "string \<Rightarrow> string \<Rightarrow> world \<Rightarrow> (error + unit) \<times> world" where
  "put_like commentId u w =
     (case fetch (PutLike commentId u) w of
        (False, w') \<Rightarrow> (Inl FetchFailed, w')
      | (True, w') \<Rightarrow>
          (Inr (),
           w'\<lparr>remote := (remote w')\<lparr>likes_at :=
                 (likes_at (remote w'))(commentId := update_key u True (likes_at (remote w') commentId))\<rparr>\<rparr>))"

definition delete_like :: "string \<Rightarrow> string \<Rightarrow> world \<Rightarrow> (error + unit) \<times> world" where
  "delete_like commentId u w =
     (case fetch (DeleteLike commentId u) w of
        (False, w') \<Rightarrow> (Inl FetchFailed, w')
      | (True, w') \<Rightarrow>
          (Inr (),
           w'\<lparr>remote := (remote w')\<lparr>likes_at :=
                 (likes_at (remote w'))(commentId := delete_key u (likes_at (remote w') commentId))\<rparr>\<rparr>))"

subsection \<open>The handlers\<close>

text \<open>
  What a handler answers with \<open>success: false\<close>: an \<open>error\<close> text written in the code, or
  the \<open>message\<close> of a caught exception.
\<close>

datatype failure = Message string | Thrown error

definition truthy :: "string option \<Rightarrow> bool" where
  "truthy v = (case v of None \<Rightarrow> False | Some x \<Rightarrow> x \<noteq> [])"

definition initializeAuth :: "world \<Rightarrow> world" where
  "initializeAuth w =
     (if truthy (stored_userId (storage w)) \<and> truthy (stored_authToken (storage w))
      then w\<lparr>currentUser :=
               Some \<lparr>uid = (case stored_userId (storage w) of None \<Rightarrow> [] | Some x \<Rightarrow> x),
                     token = (case stored_authToken (storage w) of None \<Rightarrow> [] | Some x \<Rightarrow> x)\<rparr>\<rparr>
      else
        (case fetch SignUp w of
           (False, w1) \<Rightarrow> w1
         | (True, w1) \<Rightarrow>
             (case signup w1 of
                None \<Rightarrow> w1
              | Some usr \<Rightarrow>
                  (let w2 = w1\<lparr>currentUser := Some usr,
                               storage := (storage w1)\<lparr>stored_userId := Some (uid usr),
                                                        stored_authToken := Some (token usr)\<rparr>\<rparr>
                   in case fetch (PutUser (uid usr)) w2 of
                        (False, w3) \<Rightarrow> w3
                      | (True, w3) \<Rightarrow>
                          w3\<lparr>remote := (remote w3)\<lparr>users :=
                                (users (remote w3))(uid usr \<mapsto>
                                   \<lparr>displayName = Some (''User'' @ random_digits w3),
                                    commentCount = 0, banned = False\<rparr>)\<rparr>\<rparr>))))"

definition cached_comments :: "world \<Rightarrow> string \<Rightarrow> comment list" where
  "cached_comments w videoId = (case cached (storage w) videoId of None \<Rightarrow> [] | Some cs \<Rightarrow> cs)"

definition set_cached :: "world \<Rightarrow> string \<Rightarrow> comment list \<Rightarrow> world" where
  "set_cached w videoId cs = w\<lparr>storage := (storage w)\<lparr>cached := (cached (storage w))(videoId \<mapsto> cs)\<rparr>\<rparr>"

text \<open>
  \<open>comments.sort((a, b) => a.timestamp - b.timestamp)\<close>: the stable sort by the
  \<open>timestamp\<close>.
\<close>

definition sort_comments :: "comment list \<Rightarrow> comment list" where
  "sort_comments cs = sort_key timestamp cs"

definition cacheCommentLocally :: "string \<Rightarrow> comment \<Rightarrow> world \<Rightarrow> world" where
  "cacheCommentLocally videoId c w =
     set_cached w videoId (sort_comments (cached_comments w videoId @ [c]))"

text \<open>The argument of \<open>handleSaveComment\<close>: \<open>{ videoId, text, timestamp, platform }\<close>.\<close>

record commentData =
  cd_videoId :: string
  cd_text :: string
  cd_timestamp :: real
  cd_platform :: "string option"

text \<open>
  \<open>handleSaveComment(commentData)\<close>; \<open>now\<close> is the \<open>Date.now()\<close> of the rate limiter and
  \<open>created\<close> the one of \<open>createdAt\<close>.  Its last part, from the comment "Get user profile"
  on, is \<open>persist_comment\<close>.
\<close>

definition persist_comment :: "commentData \<Rightarrow> int \<Rightarrow> user \<Rightarrow> world \<Rightarrow> (failure + comment) \<times> world" where
  "persist_comment cd created usr w1 =
     (case get_user (uid usr) w1 of
        (Inl e, w2) \<Rightarrow> (Inl (Thrown e), w2)
      | (Inr None, w2) \<Rightarrow> (Inl (Thrown TypeError), w2)
      | (Inr (Some userData), w2) \<Rightarrow>
          if banned userData
          then (Inl (Message ''Your account has been suspended.''), w2)
          else
            (let newComment =
                   \<lparr>comment_text = cd_text cd,
                    timestamp = \<lfloor>cd_timestamp cd\<rfloor>,
                    authorId = uid usr,
                    authorName = (if truthy (displayName userData)
                                  then (case displayName userData of None \<Rightarrow> [] | Some n \<Rightarrow> n)
                                  else ''Anonymous''),
                    likes = 0,
                    createdAt = created,
                    platform = cd_platform cd\<rparr>
             in case post_comment (cd_videoId cd) newComment w2 of
                  (Inl e, w3) \<Rightarrow> (Inl (Thrown e), w3)
                | (Inr name, w3) \<Rightarrow>
                    (let saved = comment_data.extend newComment
                                   \<lparr>comment_id = name, replies = None, likedByUser = None\<rparr>
                     in case put_commentCount (uid usr) (commentCount userData + 1) w3 of
                          (Inl e, w4) \<Rightarrow> (Inl (Thrown e), w4)
                        | (Inr u, w4) \<Rightarrow>
                            (Inr saved, cacheCommentLocally (cd_videoId cd) saved w4))))"

definition handleSaveComment :: "commentData \<Rightarrow> int \<Rightarrow> int \<Rightarrow> world \<Rightarrow> (failure + comment) \<times> world" where
  "handleSaveComment cd now created w0 =
     (let w = (if currentUser w0 = None then initializeAuth w0 else w0) in
      case currentUser w of
        None \<Rightarrow> (Inl (Thrown TypeError), w)
      | Some usr \<Rightarrow>
          (case check (limiter w) (uid usr) ''comment'' now of
             (Inl e, rl) \<Rightarrow> (Inl (Thrown e), w\<lparr>limiter := rl\<rparr>)
           | (Inr False, rl) \<Rightarrow>
               (Inl (Message ''Rate limit exceeded. Please wait before posting again.''), w\<lparr>limiter := rl\<rparr>)
           | (Inr True, rl) \<Rightarrow>
               (case filterContent (contentFilter w) (cd_text cd) of
                  (Inl e, cf) \<Rightarrow> (Inl (Thrown e), w\<lparr>limiter := rl, contentFilter := cf\<rparr>)
                | (Inr filterResult, cf) \<Rightarrow>
                    if \<not> isClean filterResult
                    then (Inl (Message (join (violations filterResult) ''. '')),
                          w\<lparr>limiter := rl, contentFilter := cf\<rparr>)
                    else persist_comment cd created usr (w\<lparr>limiter := rl, contentFilter := cf\<rparr>))))"

text \<open>
  \<open>handleLoadComments(videoId)\<close>.  The loop over the comments fetches the replies and
  the likes of each; a rejected fetch anywhere in the \<open>try\<close> block leads to the \<open>catch\<close>
  block, which answers the cached list.
\<close>

definition loaded_comment :: "string \<times> comment_data \<Rightarrow> comment" where
  "loaded_comment kd =
     comment_data.extend (snd kd) \<lparr>comment_id = fst kd, replies = Some [], likedByUser = Some False\<rparr>"

fun load_details :: "comment list \<Rightarrow> world \<Rightarrow> (error + comment list) \<times> world" where
  "load_details [] w = (Inr [], w)"
| "load_details (c # cs) w =
     (case get_replies (comment_id c) w of
        (Inl e, w1) \<Rightarrow> (Inl e, w1)
      | (Inr repliesData, w1) \<Rightarrow>
          (let c1 = (if repliesData \<noteq> []
                     then c\<lparr>replies := Some (map (\<lambda>kr. (snd kr)\<lparr>reply_id := fst kr\<rparr>) repliesData)\<rparr>
                     else c)
           in case get_likes (comment_id c) w1 of
                (Inl e, w2) \<Rightarrow> (Inl e, w2)
              | (Inr likesData, w2) \<Rightarrow>
                  (let c2 = (if likesData \<noteq> []
                             then c1\<lparr>likes := length likesData,
                                     likedByUser :=
                                       (case currentUser w2 of
                                          None \<Rightarrow> None
                                        | Some usr \<Rightarrow> Some (map_of likesData (uid usr) = Some True))\<rparr>
                             else c1)
                   in case load_details cs w2 of
                        (Inl e, w3) \<Rightarrow> (Inl e, w3)
                      | (Inr cs', w3) \<Rightarrow> (Inr (c2 # cs'), w3))))"

text \<open>The \<open>try\<close> block of \<open>handleLoadComments\<close>.\<close>

definition try_load :: "string \<Rightarrow> world \<Rightarrow> (error + comment list) \<times> world" where
  "try_load videoId w =
     (case get_comments videoId w of
        (Inl e, w1) \<Rightarrow> (Inl e, w1)
      | (Inr data, w1) \<Rightarrow>
          if data = [] then (Inr [], w1)
          else
            (case load_details (sort_comments (map loaded_comment data)) w1 of
               (Inl e, w2) \<Rightarrow> (Inl e, w2)
             | (Inr cs, w2) \<Rightarrow> (Inr cs, set_cached w2 videoId cs)))"

definition handleLoadComments :: "string \<Rightarrow> world \<Rightarrow> (failure + comment list) \<times> world" where
  "handleLoadComments videoId w =
     (case try_load videoId w of
        (Inl e, w1) \<Rightarrow> (Inr (cached_comments w1 videoId), w1)
      | (Inr cs, w1) \<Rightarrow> (Inr cs, w1))"

text \<open>\<open>handleLikeComment(commentId)\<close>; the answer is \<open>liked\<close>.\<close>

definition handleLikeComment :: "string \<Rightarrow> int \<Rightarrow> world \<Rightarrow> (failure + bool) \<times> world" where
  "handleLikeComment commentId now w0 =
     (let w = (if currentUser w0 = None then initializeAuth w0 else w0) in
      case currentUser w of
        None \<Rightarrow> (Inl (Thrown TypeError), w)
      | Some usr \<Rightarrow>
          (case check (limiter w) (uid usr) ''like'' now of
             (Inl e, rl) \<Rightarrow> (Inl (Thrown e), w\<lparr>limiter := rl\<rparr>)
           | (Inr False, rl) \<Rightarrow> (Inl (Message ''Rate limit exceeded.''), w\<lparr>limiter := rl\<rparr>)
           | (Inr True, rl) \<Rightarrow>
               (case get_like commentId (uid usr) (w\<lparr>limiter := rl\<rparr>) of
                  (Inl e, w1) \<Rightarrow> (Inl (Thrown e), w1)
                | (Inr liked, w1) \<Rightarrow>
                    if liked = Some True
                    then (case delete_like commentId (uid usr) w1 of
                            (Inl e, w2) \<Rightarrow> (Inl (Thrown e), w2)
                          | (Inr u, w2) \<Rightarrow> (Inr False, w2))
                    else (case put_like commentId (uid usr) w1 of
                            (Inl e, w2) \<Rightarrow> (Inl (Thrown e), w2)
                          | (Inr u, w2) \<Rightarrow> (Inr True, w2)))))"

text \<open>
  The state in which the background script starts, for a given outside: nobody signed in,
  no call counted, the filter as constructed, an empty local storage.
\<close>

definition background_start :: "remote \<Rightarrow> bool list \<Rightarrow> user option \<Rightarrow> string \<Rightarrow> world" where
  "background_start r n s d =
     \<lparr>currentUser = None,
      limiter = rateLimiter_init limits_table,
      contentFilter = ContentFilter_new,
      storage = \<lparr>stored_userId = None, stored_authToken = None, cached = Map.empty\<rparr>,
      remote = r,
      issued = [],
      net = n,
      signup = s,
      random_digits = d\<rparr>"

definition remote_empty :: remote where
  "remote_empty =
     \<lparr>users = Map.empty, comments_at = (\<lambda>v. []), replies_at = (\<lambda>c. []), likes_at = (\<lambda>c. []),
      generated = []\<rparr>"

text \<open>The value stored at \<open>likes/{commentId}/{actorId}\<close>.\<close>

definition like_state :: "remote \<Rightarrow> string \<Rightarrow> string \<Rightarrow> bool option" where
  "like_state r commentId u = map_of (likes_at r commentId) u"

text \<open>Every cached list is in the order of the timestamps.\<close>

definition cache_sorted :: "world \<Rightarrow> bool" where
  "cache_sorted w \<longleftrightarrow> (\<forall>v cs. cached (storage w) v = Some cs \<longrightarrow> sorted (map timestamp cs))"

text \<open>
  The states the background script can be in: it starts with an empty cache; between two
  handlers the outside (the remote store, the network, the identity service) may change in
  any way; and \<open>initializeAuth\<close> and each handler modelled here lead from one state to
  the next (the handlers for replies and reports do not touch the cache).
\<close>

inductive reachable :: "world \<Rightarrow> bool" where
  start: "cached (storage w) = Map.empty \<Longrightarrow> reachable w"
| outside: "reachable w \<Longrightarrow> reachable (w\<lparr>remote := r, net := n, signup := s, random_digits := d\<rparr>)"
| auth: "reachable w \<Longrightarrow> reachable (initializeAuth w)"
| save: "reachable w \<Longrightarrow> reachable (snd (handleSaveComment cd now created w))"
| load: "reachable w \<Longrightarrow> reachable (snd (handleLoadComments videoId w))"
| like: "reachable w \<Longrightarrow> reachable (snd (handleLikeComment commentId now w))"

section \<open>Content script (content.js): playback position and the comment form\<close>

text \<open>
  \<open>String.prototype.match\<close> with an expression without the \<open>g\<close> flag: the captures of the
  leftmost match, \<open>None\<close> for \<open>null\<close>.
\<close>

definition str_match :: "regex \<Rightarrow> string \<Rightarrow> captures option" where
  "str_match r s = (case exec_from r False s 0 of None \<Rightarrow> None | Some (i, e, caps) \<Rightarrow> Some caps)"

text \<open>
  \<open>parseInt\<close> on a string that starts with decimal digits, as the captured groups do (no
  leading white space, sign or radix prefix): the value of the leading digits, \<open>None\<close>
  for \<open>NaN\<close>.
\<close>

definition digit_value :: "char \<Rightarrow> int" where
  "digit_value c = int (code c) - 48"

definition digits_value :: "string \<Rightarrow> int" where
  "digits_value ds = foldl (\<lambda>n c. 10 * n + digit_value c) 0 ds"

definition parseInt :: "string \<Rightarrow> int option" where
  "parseInt s = (let ds = takeWhile is_digit s in if ds = [] then None else Some (digits_value ds))"

text \<open>The patterns of \<open>getRealTimestamp\<close>.\<close>

definition time_short :: regex where
  "time_short = seq [Repeat 1 (Some 2) digit, Chr CHR '':'', Repeat 2 (Some 2) digit]"

definition time_hms_optional :: regex where
  "time_hms_optional =
     seq [Group 1 (Repeat 1 (Some 2) digit), Chr CHR '':'', Group 2 (Repeat 2 (Some 2) digit),
          Opt (seq [Chr CHR '':'', Group 3 (Repeat 2 (Some 2) digit)])]"

definition time_hms :: regex where
  "time_hms =
     seq [Group 1 (Repeat 1 (Some 2) digit), Chr CHR '':'', Group 2 (Repeat 2 (Some 2) digit),
          Chr CHR '':'', Group 3 (Repeat 2 (Some 2) digit)]"

definition time_ms :: regex where
  "time_ms = seq [Group 1 (Repeat 1 (Some 2) digit), Chr CHR '':'', Group 2 (Repeat 2 (Some 2) digit)]"

definition decimal_numeral :: regex where
  "decimal_numeral = seq [LineStart, Plus digit, Opt (Group 1 (seq [Chr CHR ''.'', Plus digit])), LineEnd]"

text \<open>
  What \<open>getRealTimestamp\<close> reads from the page.  A property of an element is the string
  form of its value, \<open>None\<close> when it is \<open>undefined\<close> or \<open>null\<close>; the DOM calls are taken
  not to throw (a throw inside one of the \<open>try\<close> blocks skips the source, as an absent
  element does).  Numbers are finite: \<open>parseFloat\<close> is a parameter \<open>pf\<close> of the model,
  with \<open>None\<close> for \<open>NaN\<close>.
\<close>

datatype platform = Netflix | DisneyPlus | Hulu

record slider =
  slider_value :: "string option"
  slider_max :: "string option"

record progress_bar =
  shadow_slider :: "slider option"
  property :: "string \<Rightarrow> string option"
  attributes :: "(string \<times> string) list"

record video =
  readyState :: nat
  paused :: bool
  currentTime :: real

record page =
  page_platform :: "platform option"
  progressBar :: "progress_bar option"
  controls :: "string list option"
  netflix_time_remaining :: "string option"
  hulu_time_display :: "string option"
  videos :: "video list"

definition parse_opt :: "(string \<Rightarrow> real option) \<Rightarrow> string option \<Rightarrow> real option" where
  "parse_opt pf v = (case v of None \<Rightarrow> None | Some s \<Rightarrow> pf s)"

text \<open>The shadow DOM slider of the \<open>progress-bar\<close> element.\<close>

definition slider_time :: "(string \<Rightarrow> real option) \<Rightarrow> progress_bar \<Rightarrow> int option" where
  "slider_time pf bar =
     (case shadow_slider bar of
        None \<Rightarrow> None
      | Some shadowInput \<Rightarrow>
          (case (parse_opt pf (slider_value shadowInput), parse_opt pf (slider_max shadowInput)) of
             (Some v, Some mx) \<Rightarrow> if mx > 100 \<and> mx < 86400 \<and> v > 0 then Some \<lfloor>v\<rfloor> else None
           | _ \<Rightarrow> None))"

definition possibleProps :: "string list" where
  "possibleProps =
     [''value'', ''currentTime'', ''current'', ''position'',
      ''currentValue'', ''time'', ''playbackTime'', ''seconds'']"

fun property_time :: "(string \<Rightarrow> real option) \<Rightarrow> progress_bar \<Rightarrow> string list \<Rightarrow> int option" where
  "property_time pf bar [] = None"
| "property_time pf bar (prop # props) =
     (case property bar prop of
        None \<Rightarrow> property_time pf bar props
      | Some s \<Rightarrow>
          (case pf s of
             None \<Rightarrow> property_time pf bar props
           | Some v \<Rightarrow> if v > 0 \<and> v < 86400 then Some \<lfloor>v\<rfloor> else property_time pf bar props))"

fun attribute_time :: "(string \<Rightarrow> real option) \<Rightarrow> (string \<times> string) list \<Rightarrow> int option" where
  "attribute_time pf [] = None"
| "attribute_time pf ((attr, v) # rest) =
     (if v \<noteq> [] \<and> str_match decimal_numeral v \<noteq> None
      then (case pf v of
              None \<Rightarrow> attribute_time pf rest
            | Some numValue \<Rightarrow>
                if numValue > 10 \<and> numValue < 86400 then Some \<lfloor>numValue\<rfloor> else attribute_time pf rest)
      else attribute_time pf rest)"

text \<open>The time texts of the controls area: the largest time among them.\<close>

definition group_truthy :: "captures \<Rightarrow> nat \<Rightarrow> bool" where
  "group_truthy m k = (case m k of None \<Rightarrow> False | Some s \<Rightarrow> s \<noteq> [])"

definition group_int :: "captures \<Rightarrow> nat \<Rightarrow> int option" where
  "group_int m k = (case m k of None \<Rightarrow> None | Some s \<Rightarrow> parseInt s)"

definition total_seconds :: "int option \<Rightarrow> int option \<Rightarrow> int option \<Rightarrow> int option" where
  "total_seconds hours minutes seconds =
     (case (hours, minutes, seconds) of
        (Some h, Some m, Some s) \<Rightarrow> Some (h * 3600 + m * 60 + s)
      | _ \<Rightarrow> None)"

definition control_time :: "string \<Rightarrow> int option" where
  "control_time t =
     (case str_match time_hms_optional t of
        None \<Rightarrow> None
      | Some m \<Rightarrow>
          (case (if group_truthy m 3
                 then total_seconds (group_int m 1) (group_int m 2) (group_int m 3)
                 else total_seconds (Some 0) (group_int m 1) (group_int m 2)) of
             None \<Rightarrow> None
           | Some totalSeconds \<Rightarrow>
               if totalSeconds > 0 \<and> totalSeconds < 86400 then Some totalSeconds else None))"

definition controls_time :: "string list \<Rightarrow> int option" where
  "controls_time texts =
     (let timeTexts = filter (\<lambda>t. length t < 30 \<and> str_match time_short t \<noteq> None) (map trim texts);
          times = concat (map (\<lambda>t. case control_time t of None \<Rightarrow> [] | Some x \<Rightarrow> [x]) timeTexts)
      in if times = [] then None else Some (Max (set times)))"

definition disney_time :: "(string \<Rightarrow> real option) \<Rightarrow> page \<Rightarrow> int option" where
  "disney_time pf p =
     (case (case progressBar p of
              None \<Rightarrow> None
            | Some bar \<Rightarrow>
                (case slider_time pf bar of
                   Some v \<Rightarrow> Some v
                 | None \<Rightarrow>
                     (case property_time pf bar possibleProps of
                        Some v \<Rightarrow> Some v
                      | None \<Rightarrow> attribute_time pf (attributes bar)))) of
        Some v \<Rightarrow> Some v
      | None \<Rightarrow> (case controls p of None \<Rightarrow> None | Some texts \<Rightarrow> controls_time texts))"

definition netflix_time :: "page \<Rightarrow> int option" where
  "netflix_time p =
     (case netflix_time_remaining p of
        None \<Rightarrow> None
      | Some t \<Rightarrow>
          (case str_match time_hms t of
             None \<Rightarrow> None
           | Some m \<Rightarrow> total_seconds (group_int m 1) (group_int m 2) (group_int m 3)))"

definition hulu_time :: "page \<Rightarrow> int option" where
  "hulu_time p =
     (case hulu_time_display p of
        None \<Rightarrow> None
      | Some t \<Rightarrow>
          (case str_match time_ms t of
             None \<Rightarrow> None
           | Some m \<Rightarrow> total_seconds (Some 0) (group_int m 1) (group_int m 2)))"

text \<open>\<open>findVideoElement\<close>, on the elements the selector of the platform finds.\<close>

definition findVideoElement :: "page \<Rightarrow> video option" where
  "findVideoElement p =
     (case (if length (videos p) > 1
            then (case find (\<lambda>v. readyState v > 0 \<and> \<not> paused v) (videos p) of
                    Some v \<Rightarrow> Some v
                  | None \<Rightarrow> find (\<lambda>v. readyState v > 0) (videos p))
            else None) of
        Some v \<Rightarrow> Some v
      | None \<Rightarrow> (case videos p of [] \<Rightarrow> None | v # vs \<Rightarrow> Some v))"

definition fallback_time :: "page \<Rightarrow> int option" where
  "fallback_time p =
     (case findVideoElement p of
        None \<Rightarrow> None
      | Some videoElement \<Rightarrow>
          if currentTime videoElement > 0 then Some \<lfloor>currentTime videoElement\<rfloor> else None)"

definition getRealTimestamp :: "(string \<Rightarrow> real option) \<Rightarrow> page \<Rightarrow> int option" where
  "getRealTimestamp pf p =
     (case (if page_platform p = Some DisneyPlus then disney_time pf p else None) of
        Some v \<Rightarrow> Some v
      | None \<Rightarrow>
          (case (if page_platform p = Some Netflix then netflix_time p else None) of
             Some v \<Rightarrow> Some v
           | None \<Rightarrow>
               (case (if page_platform p = Some Hulu then hulu_time p else None) of
                  Some v \<Rightarrow> Some v
                | None \<Rightarrow> fallback_time p)))"

text \<open>
  \<open>handleAddComment(text)\<close> up to its call of \<open>saveComment\<close>: the text is ignored, an error
  is shown, the filter throws, or \<open>saveComment(text, timestamp)\<close> is called.
\<close>

datatype add_outcome = Ignored | ShowError string | Threw error | SaveComment string int

definition handleAddComment ::
    "(string \<Rightarrow> real option) \<Rightarrow> page \<Rightarrow> ContentFilter \<Rightarrow> string \<Rightarrow> add_outcome \<times> ContentFilter" where
  "handleAddComment pf p cf comment =
     (if trim comment = [] then (Ignored, cf)
      else
        (case filterContent cf comment of
           (Inl e, cf') \<Rightarrow> (Threw e, cf')
         | (Inr filterResult, cf') \<Rightarrow>
             if \<not> isClean filterResult
             then (ShowError (join (violations filterResult) ''. ''), cf')
             else
               (case getRealTimestamp pf p of
                  None \<Rightarrow> (ShowError ''Could not get current timestamp. Please try again.'', cf')
                | Some ts \<Rightarrow> (SaveComment comment ts, cf'))))"

text \<open>
  A \<open>parseFloat\<close> for the witnesses: the exact value of a decimal numeral (the rounding to
  a double is left out).
\<close>

definition parse_decimal :: "string \<Rightarrow> real option" where
  "parse_decimal s =
     (let ip = takeWhile is_digit s;
          rest = dropWhile is_digit s
      in if ip = [] then None
         else (case rest of
                 c # fs \<Rightarrow>
                   if c = CHR ''.''
                   then Some (real_of_int (digits_value ip) +
                              real_of_int (digits_value (takeWhile is_digit fs)) / 10 ^ length (takeWhile is_digit fs))
                   else Some (real_of_int (digits_value ip))
               | [] \<Rightarrow> Some (real_of_int (digits_value ip))))"

section \<open>Proofs: rate limiter\<close>

lemma recorded_set_recorded:
  "recorded (set_recorded rl u a ts) u' a' = (if u' = u \<and> a' = a then ts else recorded rl u' a')"
  by (simp add: recorded_def set_recorded_def user_actions_def)

lemma limits_set_recorded: "limits (set_recorded rl u a ts) = limits rl"
  by (simp add: set_recorded_def)

lemma check_configured:
  "limits rl a = Some lm \<Longrightarrow>
   check rl u a now =
     (if max_l lm \<le> length (filter (\<lambda>time. now - time < window lm) (recorded rl u a))
      then (Inr False, set_recorded rl u a (filter (\<lambda>time. now - time < window lm) (recorded rl u a)))
      else (Inr True, set_recorded rl u a (filter (\<lambda>time. now - time < window lm) (recorded rl u a) @ [now])))"
  by (simp add: check_def Let_def)

lemma check_unconfigured:
  "limits rl a = None \<Longrightarrow> check rl u a now = (Inl TypeError, set_recorded rl u a (recorded rl u a))"
  by (simp add: check_def Let_def)

lemma limits_check: "limits (snd (check rl u a now)) = limits rl"
  by (cases "limits rl a") (simp_all add: check_configured check_unconfigured limits_set_recorded)

lemma check_all_Cons:
  "check_all rl ((u, a, t) # cs) =
     (fst (check rl u a t) # fst (check_all (snd (check rl u a t)) cs),
      snd (check_all (snd (check rl u a t)) cs))"
  by (simp add: split_beta)

declare check_all.simps(2) [simp del]

lemma limits_check_all: "limits (snd (check_all rl cs)) = limits rl"
proof (induction cs arbitrary: rl)
  case Nil
  show ?case by simp
next
  case (Cons c cs)
  obtain u a t where c: "c = (u, a, t)" by (cases c)
  show ?case
    using Cons.IH [of "snd (check rl u a t)"] limits_check [of rl u a t]
    by (simp add: c check_all_Cons)
qed

lemma bounded_init: "bounded (rateLimiter_init L)"
  by (simp add: bounded_def rateLimiter_init_def recorded_def user_actions_def)

lemma length_filter_bound: "length xs \<le> n \<Longrightarrow> length (filter P xs) \<le> n"
  using length_filter_le [of P xs] by linarith

lemma bounded_check: "bounded rl \<Longrightarrow> bounded (snd (check rl u a now))"
proof (cases "limits rl a")
  case None
  assume "bounded rl"
  then show ?thesis
    using None by (auto simp: bounded_def check_unconfigured recorded_set_recorded limits_set_recorded)
next
  case (Some lm)
  assume b: "bounded rl"
  then have "length (recorded rl u a) \<le> max_l lm"
    using Some by (simp add: bounded_def)
  then have "length (filter (\<lambda>time. now - time < window lm) (recorded rl u a)) \<le> max_l lm"
    by (rule length_filter_bound)
  then show ?thesis
    using b Some
    by (auto simp: bounded_def check_configured recorded_set_recorded limits_set_recorded)
qed

lemma bounded_check_all: "bounded rl \<Longrightarrow> bounded (snd (check_all rl cs))"
proof (induction cs arbitrary: rl)
  case Nil
  then show ?case by simp
next
  case (Cons c cs)
  obtain u a t where c: "c = (u, a, t)" by (cases c)
  have "bounded (snd (check rl u a t))" using Cons.prems by (rule bounded_check)
  then have "bounded (snd (check_all (snd (check rl u a t)) cs))" by (rule Cons.IH)
  then show ?case by (simp add: c check_all_Cons)
qed

lemma filter_window_mono:
  "t \<le> now \<Longrightarrow>
   filter (\<lambda>x. now - x < (w::int)) (filter (\<lambda>x. t - x < w) xs) = filter (\<lambda>x. now - x < w) xs"
  by (induction xs) auto

lemma check_window:
  assumes "t \<le> now" and "limits rl a = Some lm"
  shows "filter (\<lambda>x. now - x < window lm) (recorded (snd (check rl u' a' t)) u a) =
         filter (\<lambda>x. now - x < window lm)
           (recorded rl u a @ (if u' = u \<and> a' = a \<and> fst (check rl u' a' t) = Inr True then [t] else []))"
proof (cases "limits rl a'")
  case None
  then show ?thesis using assms by (auto simp: check_unconfigured recorded_set_recorded)
next
  case (Some lm')
  then show ?thesis
    using assms filter_window_mono [OF assms(1), of "window lm" "recorded rl u a"]
    by (auto simp: check_configured recorded_set_recorded)
qed

lemma check_all_window:
  "sorted (map (snd \<circ> snd) cs @ [now]) \<Longrightarrow> limits rl a = Some lm \<Longrightarrow>
   filter (\<lambda>x. now - x < window lm) (recorded (snd (check_all rl cs)) u a) =
   filter (\<lambda>x. now - x < window lm) (recorded rl u a @ admissions cs (fst (check_all rl cs)) u a)"
proof (induction cs arbitrary: rl)
  case Nil
  then show ?case by simp
next
  case (Cons c cs)
  obtain u' a' t where c: "c = (u', a', t)" by (cases c)
  let ?rl = "snd (check rl u' a' t)"
  have t: "t \<le> now" using Cons.prems(1) by (simp add: c)
  have s: "sorted (map (snd \<circ> snd) cs @ [now])" using Cons.prems(1) by (simp add: c comp_def)
  have l: "limits ?rl a = Some lm" using Cons.prems(2) by (simp add: limits_check)
  have ih: "filter (\<lambda>x. now - x < window lm) (recorded (snd (check_all ?rl cs)) u a) =
            filter (\<lambda>x. now - x < window lm) (recorded ?rl u a @ admissions cs (fst (check_all ?rl cs)) u a)"
    using Cons.IH [OF s l] .
  show ?case
    using ih check_window [OF t Cons.prems(2), of u' a' u]
    by (simp add: c check_all_Cons)
qed


lemma recorded_init: "recorded (rateLimiter_init L) u a = []"
  by (simp add: rateLimiter_init_def recorded_def user_actions_def)

lemma limits_init: "limits (rateLimiter_init L) = L"
  by (simp add: rateLimiter_init_def)

lemmas check_eval = check_all_Cons check_configured recorded_set_recorded limits_set_recorded
  recorded_init limits_init

lemma check_all_init_window:
  assumes "sorted (map (snd \<circ> snd) cs @ [now])" and "L a = Some lm"
  shows "filter (\<lambda>x. now - x < window lm) (recorded (snd (check_all (rateLimiter_init L) cs)) u a) =
         filter (\<lambda>x. now - x < window lm) (admissions cs (fst (check_all (rateLimiter_init L) cs)) u a)"
proof -
  have l: "limits (rateLimiter_init L) a = Some lm"
    using assms(2) by (simp add: rateLimiter_init_def)
  have e: "recorded (rateLimiter_init L) u a = []"
    by (simp add: rateLimiter_init_def recorded_def user_actions_def)
  show ?thesis
    using check_all_window [OF assms(1) l, of u] by (simp add: e)
qed

lemma limits_run: "limits (snd (check_all (rateLimiter_init L) cs)) = L"
  by (simp add: limits_check_all rateLimiter_init_def)

lemma bounded_run: "bounded (snd (check_all (rateLimiter_init L) cs))"
  by (rule bounded_check_all) (rule bounded_init)

text \<open>
  C2.  For an actor and an action kind with a configured limit, after any sequence of calls
  from the initial state: when the calls come at non-decreasing times, a call is admitted
  exactly when fewer than \<open>max\<close> earlier admitted calls of the same actor and action kind
  lie within the trailing window (\<open>now - time < window\<close>), so the call after \<open>max\<close>
  admissions within the window is rejected; and a call is admitted as soon as one recorded
  admission is at least \<open>window\<close> old.  With \<open>max = 2\<close> and \<open>window = 1000\<close>, calls at
  0 and 100 are admitted, the call at 200 is rejected and the call at 1101 is admitted.
\<close>

theorem sliding_window_admission:
  assumes "L act = Some lm"
  shows "(sorted (map (snd \<circ> snd) cs @ [now]) \<longrightarrow>
            fst (check (snd (check_all (rateLimiter_init L) cs)) userId act now) =
              Inr (length (filter (\<lambda>time. now - time < window lm)
                     (admissions cs (fst (check_all (rateLimiter_init L) cs)) userId act)) < max_l lm)) \<and>
         ((\<exists>t0 \<in> set (recorded (snd (check_all (rateLimiter_init L) cs)) userId act). window lm \<le> now - t0) \<longrightarrow>
            fst (check (snd (check_all (rateLimiter_init L) cs)) userId act now) = Inr True) \<and>
         fst (check_all (rateLimiter_init [act \<mapsto> \<lparr>max_l = 2, window = 1000\<rparr>])
                [(userId, act, 0), (userId, act, 100), (userId, act, 200), (userId, act, 1101)]) =
           [Inr True, Inr True, Inr False, Inr True]"
proof (intro conjI impI)
  let ?rl = "snd (check_all (rateLimiter_init L) cs)"
  have l: "limits ?rl act = Some lm" using assms by (simp add: limits_run)
  {
    assume s: "sorted (map (snd \<circ> snd) cs @ [now])"
    show "fst (check ?rl userId act now) =
            Inr (length (filter (\<lambda>time. now - time < window lm)
                   (admissions cs (fst (check_all (rateLimiter_init L) cs)) userId act)) < max_l lm)"
      using check_all_init_window [of cs now L act lm userId] s assms
      by (simp add: check_configured [OF l] not_le)
  }
  {
    assume "\<exists>t0 \<in> set (recorded ?rl userId act). window lm \<le> now - t0"
    then obtain t0 where t0: "t0 \<in> set (recorded ?rl userId act)" and old: "\<not> now - t0 < window lm"
      by auto
    have "length (filter (\<lambda>time. now - time < window lm) (recorded ?rl userId act)) < length (recorded ?rl userId act)"
      using t0 old by (rule length_filter_less)
    moreover have "length (recorded ?rl userId act) \<le> max_l lm"
      using bounded_run [of L cs] l by (simp add: bounded_def)
    ultimately show "fst (check ?rl userId act now) = Inr True"
      by (simp add: check_configured [OF l])
  }
  show "fst (check_all (rateLimiter_init [act \<mapsto> \<lparr>max_l = 2, window = 1000\<rparr>])
                [(userId, act, 0), (userId, act, 100), (userId, act, 200), (userId, act, 1101)]) =
           [Inr True, Inr True, Inr False, Inr True]"
    by (simp add: check_eval)
qed

theorem sliding_window_admission_witness:
  "[''comment'' \<mapsto> \<lparr>max_l = 2, window = 1000\<rparr>] ''comment'' = Some \<lparr>max_l = 2, window = 1000\<rparr> \<and>
   sorted (map (snd \<circ> snd) [(''u'', ''comment'', 0), (''u'', ''comment'', 100::int)] @ [200]) \<and>
   fst (check (snd (check_all (rateLimiter_init [''comment'' \<mapsto> \<lparr>max_l = 2, window = 1000\<rparr>])
          [(''u'', ''comment'', 0), (''u'', ''comment'', 100)])) ''u'' ''comment'' 200) = Inr False \<and>
   (\<exists>t0 \<in> set (recorded (snd (check_all (rateLimiter_init [''comment'' \<mapsto> \<lparr>max_l = 2, window = 1000\<rparr>])
          [(''u'', ''comment'', 0), (''u'', ''comment'', 100)])) ''u'' ''comment''). 1000 \<le> 1101 - t0) \<and>
   fst (check (snd (check_all (rateLimiter_init [''comment'' \<mapsto> \<lparr>max_l = 2, window = 1000\<rparr>])
          [(''u'', ''comment'', 0), (''u'', ''comment'', 100)])) ''u'' ''comment'' 1101) = Inr True"
proof -
  let ?L = "[''comment'' \<mapsto> \<lparr>max_l = 2, window = 1000\<rparr>]"
  let ?cs = "[(''u'', ''comment'', 0), (''u'', ''comment'', 100::int)]"
  have h: "?L ''comment'' = Some \<lparr>max_l = 2, window = 1000\<rparr>" by simp
  have r: "recorded (snd (check_all (rateLimiter_init ?L) ?cs)) ''u'' ''comment'' = [0, 100]"
    by (simp add: check_eval)
  have a: "admissions ?cs (fst (check_all (rateLimiter_init ?L) ?cs)) ''u'' ''comment'' = [0, 100]"
    by (simp add: check_eval)
  show ?thesis
    using sliding_window_admission [of ?L "''comment''" "\<lparr>max_l = 2, window = 1000\<rparr>" ?cs 200 "''u''"]
      sliding_window_admission [of ?L "''comment''" "\<lparr>max_l = 2, window = 1000\<rparr>" ?cs 1101 "''u''"] h
    by (simp add: r a)
qed

text \<open>
  C9.  After every sequence of calls from the initial state, the list of each actor and
  configured action kind holds at most \<open>max\<close> entries; and a rejected call, in any state,
  leaves as the list of its actor and action kind the entries of before that are not
  expired (\<open>now - time < window\<close>: an entry exactly \<open>window\<close> old is expired), records no
  time, and leaves every other list as it was.
\<close>

theorem rate_window_bounded:
  assumes "L act = Some lm"
  shows "length (recorded (snd (check_all (rateLimiter_init L) cs)) userId act) \<le> max_l lm \<and>
         (\<forall>rl now. limits rl = L \<and> fst (check rl userId act now) = Inr False \<longrightarrow>
            recorded (snd (check rl userId act now)) userId act =
              filter (\<lambda>time. now - time < window lm) (recorded rl userId act) \<and>
            (\<forall>u a. (u, a) \<noteq> (userId, act) \<longrightarrow>
               recorded (snd (check rl userId act now)) u a = recorded rl u a))"
proof (intro conjI allI impI)
  show "length (recorded (snd (check_all (rateLimiter_init L) cs)) userId act) \<le> max_l lm"
    using bounded_run [of L cs] assms by (simp add: bounded_def limits_run)
next
  fix rl now
  assume h: "limits rl = L \<and> fst (check rl userId act now) = Inr False"
  then have l: "limits rl act = Some lm" using assms by simp
  show "recorded (snd (check rl userId act now)) userId act =
          filter (\<lambda>time. now - time < window lm) (recorded rl userId act)"
    using h by (simp add: check_configured [OF l] recorded_set_recorded split: if_splits)
  fix u a
  assume "(u, a) \<noteq> (userId, act)"
  then show "recorded (snd (check rl userId act now)) u a = recorded rl u a"
    by (auto simp: check_configured [OF l] recorded_set_recorded)
qed

theorem rate_window_bounded_witness:
  "[''like'' \<mapsto> \<lparr>max_l = 2, window = 50\<rparr>] ''like'' = Some \<lparr>max_l = 2, window = 50\<rparr> \<and>
   length (recorded (snd (check_all (rateLimiter_init [''like'' \<mapsto> \<lparr>max_l = 2, window = 50\<rparr>])
      [(''u'', ''like'', 3), (''u'', ''like'', 10)])) ''u'' ''like'') \<le> 2 \<and>
   limits (snd (check_all (rateLimiter_init [''like'' \<mapsto> \<lparr>max_l = 2, window = 50\<rparr>])
      [(''u'', ''like'', 3), (''v'', ''like'', 10), (''u'', ''like'', 11)])) = [''like'' \<mapsto> \<lparr>max_l = 2, window = 50\<rparr>] \<and>
   fst (check (snd (check_all (rateLimiter_init [''like'' \<mapsto> \<lparr>max_l = 2, window = 50\<rparr>])
      [(''u'', ''like'', 3), (''v'', ''like'', 10), (''u'', ''like'', 11)])) ''u'' ''like'' 52) = Inr False \<and>
   recorded (snd (check (snd (check_all (rateLimiter_init [''like'' \<mapsto> \<lparr>max_l = 2, window = 50\<rparr>])
      [(''u'', ''like'', 3), (''v'', ''like'', 10), (''u'', ''like'', 11)])) ''u'' ''like'' 52)) ''u'' ''like'' = [3, 11] \<and>
   recorded (snd (check (snd (check_all (rateLimiter_init [''like'' \<mapsto> \<lparr>max_l = 2, window = 50\<rparr>])
      [(''u'', ''like'', 3), (''v'', ''like'', 10), (''u'', ''like'', 11)])) ''u'' ''like'' 52)) ''v'' ''like'' = [10]"
proof -
  let ?L = "[''like'' \<mapsto> \<lparr>max_l = 2, window = 50\<rparr>]"
  let ?rl = "snd (check_all (rateLimiter_init ?L) [(''u'', ''like'', 3), (''v'', ''like'', 10), (''u'', ''like'', 11)])"
  have h: "?L ''like'' = Some \<lparr>max_l = 2, window = 50\<rparr>" by simp
  have r: "recorded ?rl ''u'' ''like'' = [3, 11]" "recorded ?rl ''v'' ''like'' = [10]"
    by (simp_all add: check_eval)
  have l: "limits ?rl = ?L"
    by (simp add: limits_check_all limits_init)
  have c: "fst (check ?rl ''u'' ''like'' 52) = Inr False"
    by (simp add: check_eval)
  show ?thesis
    using rate_window_bounded [of ?L "''like''" "\<lparr>max_l = 2, window = 50\<rparr>"
        "[(''u'', ''like'', 3), (''u'', ''like'', 10)]" "''u''"] h c l
    by (simp add: r)
qed

section \<open>Proofs: strings\<close>

text \<open>
  The two case mappings, written with the bit operations, are the arithmetic ones: 32 is
  subtracted from the code unit of a lower-case letter, and added to that of an upper-case
  letter.  A class matches a code unit exactly when it has a member with the same
  canonical form, as the language specification says.
\<close>

lemma low_bits_bound:
  "of_bool b0 + 2 * of_bool b1 + 4 * of_bool b2 + 8 * of_bool b3 + 16 * of_bool b4 \<le> (31::nat)"
  by (cases b0; cases b1; cases b2; cases b3; cases b4; simp)

lemma code_Char:
  "code (Char b0 b1 b2 b3 b4 b5 b6 b7) =
     (of_bool b0 + 2 * of_bool b1 + 4 * of_bool b2 + 8 * of_bool b3 + 16 * of_bool b4) +
     32 * of_bool b5 + 64 * of_bool b6 + 128 * of_bool b7"
  by (simp add: code_def)

lemma clear_bit5_code:
  assumes "(97 \<le> code c \<and> code c \<le> 122) \<or> (224 \<le> code c \<and> code c \<le> 254)"
  shows "code (clear_bit5 c) = code c - 32"
proof (cases c)
  case (Char b0 b1 b2 b3 b4 b5 b6 b7)
  define S :: nat where
    "S = of_bool b0 + 2 * of_bool b1 + 4 * of_bool b2 + 8 * of_bool b3 + 16 * of_bool b4"
  have S: "S \<le> 31" unfolding S_def by (rule low_bits_bound)
  have c: "code c = S + 32 * of_bool b5 + 64 * of_bool b6 + 128 * of_bool b7"
    by (simp add: Char code_Char S_def)
  have c': "code (clear_bit5 c) = S + 64 * of_bool b6 + 128 * of_bool b7"
    by (simp add: Char code_Char S_def)
  have "b5"
  proof (rule ccontr)
    assume "\<not> b5"
    then have "code c = S \<or> code c = S + 64 \<or> code c = S + 128 \<or> code c = S + 192"
      by (cases b6; cases b7) (simp_all add: c)
    then show False using assms S by linarith
  qed
  then show ?thesis by (simp add: c c')
qed

lemma set_bit5_code:
  assumes "(65 \<le> code c \<and> code c \<le> 90) \<or> (192 \<le> code c \<and> code c \<le> 222)"
  shows "code (set_bit5 c) = code c + 32"
proof (cases c)
  case (Char b0 b1 b2 b3 b4 b5 b6 b7)
  define S :: nat where
    "S = of_bool b0 + 2 * of_bool b1 + 4 * of_bool b2 + 8 * of_bool b3 + 16 * of_bool b4"
  have S: "S \<le> 31" unfolding S_def by (rule low_bits_bound)
  have c: "code c = S + 32 * of_bool b5 + 64 * of_bool b6 + 128 * of_bool b7"
    by (simp add: Char code_Char S_def)
  have c': "code (set_bit5 c) = S + 32 + 64 * of_bool b6 + 128 * of_bool b7"
    by (simp add: Char code_Char S_def)
  have "\<not> b5"
  proof
    assume "b5"
    then have "code c = S + 32 \<or> code c = S + 96 \<or> code c = S + 160 \<or> code c = S + 224"
      by (cases b6; cases b7) (simp_all add: c)
    then show False using assms S by linarith
  qed
  then show ?thesis by (simp add: c c')
qed

lemma canonicalize_arith:
  "canonicalize ic c =
     (if ic \<and> ((97 \<le> code c \<and> code c \<le> 122) \<or> (224 \<le> code c \<and> code c \<le> 254 \<and> code c \<noteq> 247))
      then char_of (code c - 32) else c)"
proof -
  have "char_of (code c - 32) = clear_bit5 c"
    if "(97 \<le> code c \<and> code c \<le> 122) \<or> (224 \<le> code c \<and> code c \<le> 254)"
  proof -
    have "char_of (code c - 32) = char_of (of_char (clear_bit5 c) :: nat)"
      using clear_bit5_code [OF that] by (simp add: code_def)
    then show ?thesis by simp
  qed
  then show ?thesis
    by (simp add: canonicalize_def Let_def)
qed

lemma lower_char_arith:
  "lower_char c =
     (if (65 \<le> code c \<and> code c \<le> 90) \<or> (192 \<le> code c \<and> code c \<le> 222 \<and> code c \<noteq> 215)
      then char_of (code c + 32) else c)"
proof -
  have "char_of (code c + 32) = set_bit5 c"
    if "(65 \<le> code c \<and> code c \<le> 90) \<or> (192 \<le> code c \<and> code c \<le> 222)"
  proof -
    have "char_of (code c + 32) = char_of (of_char (set_bit5 c) :: nat)"
      using set_bit5_code [OF that] by (simp add: code_def)
    then show ?thesis by simp
  qed
  then show ?thesis
    by (simp add: lower_char_def Let_def)
qed


lemma code_inject: "code a = code b \<Longrightarrow> a = b"
  by (simp add: code_def)

lemma code_canonicalize:
  "code (canonicalize True c) =
     (if (97 \<le> code c \<and> code c \<le> 122) \<or> (224 \<le> code c \<and> code c \<le> 254 \<and> code c \<noteq> 247)
      then code c - 32 else code c)"
  using clear_bit5_code [of c] by (auto simp: canonicalize_def Let_def)

lemma code_lower_char:
  "code (lower_char c) =
     (if (65 \<le> code c \<and> code c \<le> 90) \<or> (192 \<le> code c \<and> code c \<le> 222 \<and> code c \<noteq> 215)
      then code c + 32 else code c)"
  using set_bit5_code [of c] by (auto simp: lower_char_def Let_def)

lemma same_canonical_form:
  assumes "canonicalize ic a = canonicalize ic c"
  shows "a = c \<or> a = canonicalize ic c \<or> a = lower_char c"
proof (cases ic)
  case False
  then show ?thesis using assms by (simp add: canonicalize_def)
next
  case True
  have e: "code (canonicalize True a) = code (canonicalize True c)"
    using assms True by simp
  have "code a = code c \<or> code a = code (canonicalize True c) \<or> code a = code (lower_char c)"
    using e unfolding code_canonicalize code_lower_char
    by (auto split: if_splits)
  then show ?thesis using True by (auto dest: code_inject)
qed

lemma class_has_iff:
  "class_has ic items c \<longleftrightarrow>
     (\<exists>a. canonicalize ic a = canonicalize ic c \<and> (\<exists>item \<in> set items. item_has item a))"
proof
  assume "class_has ic items c"
  then show "\<exists>a. canonicalize ic a = canonicalize ic c \<and> (\<exists>item \<in> set items. item_has item a)"
    by (auto simp: class_has_def case_variants_def simp del: filter.simps)
next
  assume "\<exists>a. canonicalize ic a = canonicalize ic c \<and> (\<exists>item \<in> set items. item_has item a)"
  then obtain a item where a: "canonicalize ic a = canonicalize ic c" and
    i: "item \<in> set items" "item_has item a"
    by auto
  from same_canonical_form [OF a] a have "a \<in> set (case_variants ic c)"
    by (auto simp: case_variants_def simp del: filter.simps)
  then show "class_has ic items c"
    using i by (auto simp: class_has_def)
qed

section \<open>Proofs: moderation engine\<close>

text \<open>Every word of the list of the constructor is in the fragment that \<open>parse_pattern\<close> reads.\<close>

lemma profanityList_modelled:
  "\<forall>w \<in> set (profanityList ContentFilter_new). parse_pattern w \<noteq> Inl Unmodelled"
  by code_simp

text \<open>
  C1.  Two calls of \<open>filterContent\<close> in a row on the text of fifteen \<open>a\<close>, from the state
  the constructor builds, with nothing in between: the first verdict blocks the text for
  its repeated characters and leaves \<open>lastIndex = 15\<close> in the first spam pattern (a global
  expression, run by \<open>test\<close>); the second call starts that pattern at index 15, finds
  nothing, and its verdict allows the same text.  The two verdicts differ.
\<close>

theorem filterContent_second_call_differs:
  "(let t = ''aaaaaaaaaaaaaaa'';
        (v1, cf1) = filterContent ContentFilter_new t;
        (v2, cf2) = filterContent cf1 t
    in v1 = Inr \<lparr>isClean = False, filteredText = t,
                   violations = [''Excessive repeated characters''], action = Block\<rparr> \<and>
       map lastIndex (spamPatterns cf1) = [15, 0, 0, 0] \<and>
       v2 = Inr \<lparr>isClean = True, filteredText = t, violations = [], action = Allow\<rparr> \<and>
       v1 \<noteq> v2)"
  by code_simp

text \<open>
  C4.  On the text \<open>damn ass\<close> the word loop redacts both words, and the pattern loop then
  replaces the match of \<open>d+a+m+n+\<close> in the original text and stores that: the sanitized
  text of the first run is \<open>**** ass\<close>.  A run on this sanitized text reports the word
  \<open>ass\<close> again, a violation of the first run.
\<close>

theorem filterContent_redaction_overwritten:
  "(let (v1, cf1) = filterContent ContentFilter_new ''damn ass'' in
    v1 = Inr \<lparr>isClean = False, filteredText = ''**** ass'',
                 violations = [''Inappropriate language: ass'', ''Inappropriate language: damn'',
                               ''Inappropriate language detected''],
                 action = Block\<rparr> \<and>
    fst (filterContent cf1 ''**** ass'') =
       Inr \<lparr>isClean = False, filteredText = ''**** ***'',
             violations = [''Inappropriate language: ass''], action = Block\<rparr>)"
  by code_simp

text \<open>
  Whatever the state of the expressions, a text that contains \<open>n***a\<close> (in any case of
  the letters) makes \<open>filterContent\<close> throw: the eleven words before it in the list
  compile, and the twelfth does not.
\<close>

lemma check_words_throws:
  assumes "\<forall>w \<in> set ws1. \<exists>R. RegExp_new w True True = Inr R"
    and "includes_s lowerText w0"
    and "RegExp_new w0 True True = Inl e"
  shows "check_words (ws1 @ w0 # ws2) lowerText result = Inl e"
  using assms
proof (induction ws1 arbitrary: result)
  case Nil
  then show ?case by simp
next
  case (Cons w ws1)
  from Cons.prems(1) obtain R where R: "RegExp_new w True True = Inr R" by auto
  have rest: "\<And>result. check_words (ws1 @ w0 # ws2) lowerText result = Inl e"
    using Cons.IH Cons.prems by simp
  show ?case by (simp add: R rest)
qed

lemma plain_words_compile:
  "\<forall>w \<in> set [''fuck'', ''shit'', ''bitch'', ''ass'', ''damn'', ''cunt'',
         ''crap'', ''piss'', ''bastard'', ''slut'', ''whore'']. \<exists>R. RegExp_new w True True = Inr R"
  by (simp add: RegExp_new_def syntax_character_def code_def)

lemma masked_word_does_not_compile: "RegExp_new ''n***a'' True True = Inl SyntaxError"
  by (simp add: RegExp_new_def syntax_character_def code_def)

lemma filterContent_throws_on_masked_word:
  assumes "profanityList cf = profanityList ContentFilter_new"
    and "includes_s (toLowerCase text) ''n***a''"
  shows "filterContent cf text = (Inl SyntaxError, cf)"
proof -
  have "profanityList cf =
          [''fuck'', ''shit'', ''bitch'', ''ass'', ''damn'', ''cunt'',
           ''crap'', ''piss'', ''bastard'', ''slut'', ''whore''] @ ''n***a'' # [''f****t'', ''r****d'']"
    using assms(1) by (simp add: ContentFilter_new_def)
  then have "check_words (profanityList cf) (toLowerCase text)
               \<lparr>pr_isClean = True, pr_filtered = text, pr_violations = []\<rparr> = Inl SyntaxError"
    using check_words_throws [OF plain_words_compile assms(2) masked_word_does_not_compile]
    by simp
  then show ?thesis
    by (simp add: filterContent_def checkProfanity_def)
qed

text \<open>
  C8.  On the text \<open>n***a\<close>, which contains the twelfth word of the list, \<open>checkProfanity\<close>
  builds a \<open>RegExp\<close> from that word; the pattern has a quantifier after a quantifier, the
  constructor throws a \<open>SyntaxError\<close>, and \<open>filterContent\<close> returns no verdict.
\<close>

theorem filterContent_throws:
  "fst (filterContent ContentFilter_new ''n***a'') = Inl SyntaxError"
  by code_simp

section \<open>Proofs: background script\<close>

subsection \<open>The comment write path\<close>

lemma check_comment_admits:
  assumes "check rl u a now = (Inr True, rl')"
  shows "now \<in> set (recorded rl' u a)"
proof (cases "limits rl a")
  case None
  then show ?thesis using assms by (simp add: check_def Let_def)
next
  case (Some lm)
  then show ?thesis using assms
    by (auto simp: check_def Let_def recorded_def set_recorded_def user_actions_def split: if_splits)
qed


text \<open>
  C3, as the code has it.  \<open>handleSaveComment\<close> asks the rate limiter first and the
  moderation engine second.  For a signed-in actor: a submission that the rate limiter
  admits and whose text fails moderation is answered with the violation reasons joined by
  \<open>. \<close>; nothing but the rate limiter and the filter's own state changes, so no request
  is issued to the remote store, and the time of the call is recorded in the actor's
  comment window.  A submission that the rate limiter rejects is answered with the
  rate-limit message whatever its text, which is not evaluated.
\<close>

theorem save_checks_rate_before_moderation:
  assumes "currentUser w = Some usr"
  shows "(\<forall>rl v cf. check (limiter w) (uid usr) ''comment'' now = (Inr True, rl) \<and>
            filterContent (contentFilter w) (cd_text cd) = (Inr v, cf) \<and> \<not> isClean v \<longrightarrow>
            handleSaveComment cd now created w =
              (Inl (Message (join (violations v) ''. '')), w\<lparr>limiter := rl, contentFilter := cf\<rparr>) \<and>
            now \<in> set (recorded rl (uid usr) ''comment'')) \<and>
         (\<forall>rl. check (limiter w) (uid usr) ''comment'' now = (Inr False, rl) \<longrightarrow>
            handleSaveComment cd now created w =
              (Inl (Message ''Rate limit exceeded. Please wait before posting again.''), w\<lparr>limiter := rl\<rparr>))"
  using assms by (auto simp: handleSaveComment_def Let_def dest: check_comment_admits)

theorem save_checks_rate_before_moderation_witness:
  "currentUser ((background_start remote_empty [] None [])\<lparr>currentUser := Some \<lparr>uid = ''u1'', token = ''t1''\<rparr>\<rparr>) =
     Some \<lparr>uid = ''u1'', token = ''t1''\<rparr> \<and>
   fst (check (rateLimiter_init limits_table) ''u1'' ''comment'' 1000) = Inr True \<and>
   fst (filterContent ContentFilter_new ''damn'') =
     Inr \<lparr>isClean = False, filteredText = ''****'',
          violations = [''Inappropriate language: damn'', ''Inappropriate language detected''],
          action = Block\<rparr> \<and>
   fst (handleSaveComment \<lparr>cd_videoId = ''v'', cd_text = ''damn'', cd_timestamp = 5, cd_platform = None\<rparr> 1000 1001
          ((background_start remote_empty [] None [])\<lparr>currentUser := Some \<lparr>uid = ''u1'', token = ''t1''\<rparr>\<rparr>)) =
     Inl (Message ''Inappropriate language: damn. Inappropriate language detected'') \<and>
   fst (check (set_recorded (rateLimiter_init limits_table) ''u1'' ''comment'' [1, 2, 3, 4, 5, 6, 7, 8, 9, 10])
          ''u1'' ''comment'' 1000) = Inr False \<and>
   fst (handleSaveComment \<lparr>cd_videoId = ''v'', cd_text = ''damn'', cd_timestamp = 5, cd_platform = None\<rparr> 1000 1001
          (((background_start remote_empty [] None [])\<lparr>currentUser := Some \<lparr>uid = ''u1'', token = ''t1''\<rparr>\<rparr>)
             \<lparr>limiter := set_recorded (rateLimiter_init limits_table) ''u1'' ''comment'' [1, 2, 3, 4, 5, 6, 7, 8, 9, 10]\<rparr>)) =
     Inl (Message ''Rate limit exceeded. Please wait before posting again.'')"
proof -
  let ?w = "(background_start remote_empty [] None [])\<lparr>currentUser := Some \<lparr>uid = ''u1'', token = ''t1''\<rparr>\<rparr>"
  let ?rl = "set_recorded (rateLimiter_init limits_table) ''u1'' ''comment'' [1, 2, 3, 4, 5, 6, 7, 8, 9, 10]"
  let ?cd = "\<lparr>cd_videoId = ''v'', cd_text = ''damn'', cd_timestamp = 5, cd_platform = None\<rparr>"
  let ?v = "\<lparr>isClean = False, filteredText = ''****'',
          violations = [''Inappropriate language: damn'', ''Inappropriate language detected''],
          action = Block\<rparr>"
  have u: "currentUser ?w = Some \<lparr>uid = ''u1'', token = ''t1''\<rparr>" by simp
  have u2: "currentUser (?w\<lparr>limiter := ?rl\<rparr>) = Some \<lparr>uid = ''u1'', token = ''t1''\<rparr>" by simp
  have c: "fst (check (rateLimiter_init limits_table) ''u1'' ''comment'' 1000) = Inr True"
    by code_simp
  have c2: "fst (check ?rl ''u1'' ''comment'' 1000) = Inr False"
    by code_simp
  have f: "fst (filterContent ContentFilter_new ''damn'') = Inr ?v"
    by code_simp
  have c': "check (limiter ?w) (uid \<lparr>uid = ''u1'', token = ''t1''\<rparr>) ''comment'' 1000 =
             (Inr True, snd (check (rateLimiter_init limits_table) ''u1'' ''comment'' 1000))"
    using c by (simp add: background_start_def prod_eq_iff)
  have c2': "check (limiter (?w\<lparr>limiter := ?rl\<rparr>)) (uid \<lparr>uid = ''u1'', token = ''t1''\<rparr>) ''comment'' 1000 =
             (Inr False, snd (check ?rl ''u1'' ''comment'' 1000))"
    using c2 by (simp add: prod_eq_iff)
  have f': "filterContent (contentFilter ?w) (cd_text ?cd) = (Inr ?v, snd (filterContent ContentFilter_new ''damn''))"
    using f by (simp add: background_start_def prod_eq_iff)
  have v: "\<not> isClean ?v" by simp
  have "handleSaveComment ?cd 1000 1001 ?w =
          (Inl (Message (join (violations ?v) ''. '')),
           ?w\<lparr>limiter := snd (check (rateLimiter_init limits_table) ''u1'' ''comment'' 1000),
               contentFilter := snd (filterContent ContentFilter_new ''damn'')\<rparr>)"
    using save_checks_rate_before_moderation [OF u, of 1000 ?cd 1001] c' f' v by blast
  then have a: "fst (handleSaveComment ?cd 1000 1001 ?w) =
      Inl (Message ''Inappropriate language: damn. Inappropriate language detected'')"
    by simp
  have "handleSaveComment ?cd 1000 1001 (?w\<lparr>limiter := ?rl\<rparr>) =
          (Inl (Message ''Rate limit exceeded. Please wait before posting again.''),
           ?w\<lparr>limiter := ?rl, limiter := snd (check ?rl ''u1'' ''comment'' 1000)\<rparr>)"
    using save_checks_rate_before_moderation [OF u2, of 1000 ?cd 1001] c2' by blast
  then have b: "fst (handleSaveComment ?cd 1000 1001 (?w\<lparr>limiter := ?rl\<rparr>)) =
      Inl (Message ''Rate limit exceeded. Please wait before posting again.'')"
    by simp
  show ?thesis using u c c2 f a b by simp
qed

text \<open>
  C3, as the claim states it, fails: a signed-in actor with an empty comment window submits
  the text \<open>damn\<close> at time 1000.  The text fails moderation and the answer carries the
  violation reasons, no request is issued, but the comment window of the actor holds the
  time 1000 afterwards.
\<close>

theorem save_records_admission_of_blocked_text:
  "(let w = (background_start remote_empty [] None [])\<lparr>currentUser := Some \<lparr>uid = ''u1'', token = ''t1''\<rparr>\<rparr>;
        cd = \<lparr>cd_videoId = ''v'', cd_text = ''damn'', cd_timestamp = 5, cd_platform = Some ''netflix''\<rparr>;
        (r, w') = handleSaveComment cd 1000 1001 w
    in \<not> isClean (projr (fst (filterContent (contentFilter w) (cd_text cd)))) \<and>
       r = Inl (Message ''Inappropriate language: damn. Inappropriate language detected'') \<and>
       issued w' = [] \<and>
       recorded (limiter w) ''u1'' ''comment'' = [] \<and>
       recorded (limiter w') ''u1'' ''comment'' = [1000])"
  by code_simp

subsection \<open>Loading and caching\<close>

lemma fetch_frame:
  "storage (snd (fetch rq w)) = storage w"
  "currentUser (snd (fetch rq w)) = currentUser w"
  "remote (snd (fetch rq w)) = remote w"
  by (simp_all add: fetch_def split: list.splits)

lemma get_replies_frame:
  "storage (snd (get_replies c w)) = storage w"
  "currentUser (snd (get_replies c w)) = currentUser w"
  "remote (snd (get_replies c w)) = remote w"
  by (simp_all add: get_replies_def fetch_def split: list.splits bool.splits)

lemma get_likes_frame:
  "storage (snd (get_likes c w)) = storage w"
  "currentUser (snd (get_likes c w)) = currentUser w"
  "remote (snd (get_likes c w)) = remote w"
  by (simp_all add: get_likes_def fetch_def split: list.splits bool.splits)

lemma get_comments_frame:
  "storage (snd (get_comments v w)) = storage w"
  "remote (snd (get_comments v w)) = remote w"
  by (simp_all add: get_comments_def fetch_def split: list.splits bool.splits)

lemma get_comments_data:
  "get_comments v w = (Inr data, w1) \<Longrightarrow> data = comments_at (remote w) v"
  by (auto simp: get_comments_def fetch_def split: list.splits bool.splits)

lemma get_user_frame: "storage (snd (get_user u w)) = storage w"
  by (simp add: get_user_def fetch_def split: list.splits bool.splits)

lemma post_comment_frame: "storage (snd (post_comment v c w)) = storage w"
  by (simp add: post_comment_def fetch_def Let_def split: list.splits bool.splits)

lemma put_commentCount_frame: "storage (snd (put_commentCount u n w)) = storage w"
  by (simp add: put_commentCount_def fetch_def split: list.splits bool.splits)

lemma initializeAuth_cached: "cached (storage (initializeAuth w)) = cached (storage w)"
  by (simp add: initializeAuth_def fetch_def Let_def split: list.splits bool.splits option.splits)

lemma load_details_storage: "storage (snd (load_details cs w)) = storage w"
proof (induction cs arbitrary: w)
  case Nil
  show ?case by simp
next
  case (Cons c cs)
  show ?case
    using get_replies_frame(1) [of "comment_id c" w]
      get_likes_frame(1) [of "comment_id c" "snd (get_replies (comment_id c) w)"]
      Cons.IH [of "snd (get_likes (comment_id c) (snd (get_replies (comment_id c) w)))"]
    by (auto simp: Let_def split: prod.splits sum.splits)
qed

lemma load_details_timestamps:
  "load_details cs w = (Inr cs', w') \<Longrightarrow> map timestamp cs' = map timestamp cs"
proof (induction cs arbitrary: w cs' w')
  case Nil
  then show ?case by simp
next
  case (Cons c cs)
  then show ?case
    by (auto simp: Let_def split: prod.splits sum.splits if_splits)
qed

lemma sorted_sort_comments: "sorted (map timestamp (sort_comments cs))"
  by (simp add: sort_comments_def)

lemma cached_set_cached:
  "cached_comments (set_cached w v cs) v' = (if v' = v then cs else cached_comments w v')"
  by (simp add: cached_comments_def set_cached_def)

lemma try_load_failed:
  assumes "fst (try_load v w) = Inl e"
  shows "storage (snd (try_load v w)) = storage w"
  using assms get_comments_frame(1) [of v w]
    load_details_storage [of "sort_comments (map loaded_comment (comments_at (remote w) v))" "snd (get_comments v w)"]
  by (auto simp: try_load_def split: prod.splits sum.splits if_splits dest: get_comments_data)

lemma try_load_loaded:
  assumes "try_load v w = (Inr cs, w')"
  shows "sorted (map timestamp cs)"
    and "comments_at (remote w) v \<noteq> [] \<Longrightarrow> cached_comments w' v = cs"
    and "comments_at (remote w) v \<noteq> [] \<Longrightarrow> cached (storage w') = (cached (storage w))(v \<mapsto> cs)"
    and "comments_at (remote w) v = [] \<Longrightarrow> cs = [] \<and> storage w' = storage w"
proof -
  obtain r1 w1 where g: "get_comments v w = (r1, w1)" by (cases "get_comments v w")
  from assms g obtain data where r1: "r1 = Inr data"
    by (cases r1) (auto simp: try_load_def)
  have data: "data = comments_at (remote w) v"
    using g r1 by (auto dest: get_comments_data)
  have s1: "storage w1 = storage w"
    using get_comments_frame(1) [of v w] g by simp
  show "comments_at (remote w) v = [] \<Longrightarrow> cs = [] \<and> storage w' = storage w"
    using assms g r1 data s1 by (auto simp: try_load_def)
  {
    assume ne: "comments_at (remote w) v \<noteq> []"
    obtain r2 w2 where l: "load_details (sort_comments (map loaded_comment data)) w1 = (r2, w2)"
      by (cases "load_details (sort_comments (map loaded_comment data)) w1")
    from assms g r1 data ne l have r2: "r2 = Inr cs" and w': "w' = set_cached w2 v cs"
      by (auto simp: try_load_def split: sum.splits)
    have s2: "storage w2 = storage w"
      using load_details_storage [of "sort_comments (map loaded_comment data)" w1] l s1 by simp
    show "cached_comments w' v = cs" by (simp add: w' cached_set_cached)
    show "cached (storage w') = (cached (storage w))(v \<mapsto> cs)"
      by (simp add: w' set_cached_def s2)
    have "map timestamp cs = map timestamp (sort_comments (map loaded_comment data))"
      using load_details_timestamps l r2 by blast
    then have "sorted (map timestamp cs)" by (simp add: sorted_sort_comments)
  }
  then show "sorted (map timestamp cs)"
    using assms g r1 data by (cases "comments_at (remote w) v = []") (auto simp: try_load_def)
qed


lemma handleLoadComments_cached:
  "cached (storage (snd (handleLoadComments v w))) = cached (storage w) \<or>
   (\<exists>cs. sorted (map timestamp cs) \<and>
      cached (storage (snd (handleLoadComments v w))) = (cached (storage w))(v \<mapsto> cs))"
proof (cases "try_load v w")
  case (Pair r w1)
  show ?thesis
  proof (cases r)
    case (Inl e)
    then show ?thesis
      using Pair try_load_failed [of v w e] by (simp add: handleLoadComments_def)
  next
    case (Inr cs)
    then have t: "try_load v w = (Inr cs, w1)" using Pair by simp
    show ?thesis
      using try_load_loaded [OF t]
      by (cases "comments_at (remote w) v = []") (auto simp: handleLoadComments_def t)
  qed
qed

lemma cacheCommentLocally_cached:
  "cached (storage (cacheCommentLocally v c w)) =
     (cached (storage w))(v \<mapsto> sort_comments (cached_comments w v @ [c]))"
  by (simp add: cacheCommentLocally_def set_cached_def)

lemma persist_comment_cached:
  "(\<exists>saved. fst (persist_comment cd created usr w) = Inr saved \<and>
      cached (storage (snd (persist_comment cd created usr w))) =
        (cached (storage w))(cd_videoId cd \<mapsto> sort_comments (cached_comments w (cd_videoId cd) @ [saved]))) \<or>
   ((\<exists>f. fst (persist_comment cd created usr w) = Inl f) \<and>
      cached (storage (snd (persist_comment cd created usr w))) = cached (storage w))"
proof -
  obtain r1 w1 where g: "get_user (uid usr) w = (r1, w1)" by (cases "get_user (uid usr) w")
  have s1: "storage w1 = storage w" using get_user_frame [of "uid usr" w] g by simp
  show ?thesis
  proof (cases r1)
    case (Inl e)
    then show ?thesis using g s1 by (simp add: persist_comment_def)
  next
    case (Inr ud)
    show ?thesis
    proof (cases ud)
      case None
      then show ?thesis using g s1 Inr by (simp add: persist_comment_def)
    next
      case (Some userData)
      show ?thesis
      proof (cases "banned userData")
        case True
        then show ?thesis using g s1 Inr Some by (simp add: persist_comment_def)
      next
        case False
        define newComment where "newComment =
                   \<lparr>comment_text = cd_text cd,
                    timestamp = \<lfloor>cd_timestamp cd\<rfloor>,
                    authorId = uid usr,
                    authorName = (if truthy (displayName userData)
                                  then (case displayName userData of None \<Rightarrow> [] | Some n \<Rightarrow> n)
                                  else ''Anonymous''),
                    likes = 0,
                    createdAt = created,
                    platform = cd_platform cd\<rparr>"
        obtain r2 w2 where p: "post_comment (cd_videoId cd) newComment w1 = (r2, w2)"
          by (cases "post_comment (cd_videoId cd) newComment w1")
        have s2: "storage w2 = storage w"
          using post_comment_frame [of "cd_videoId cd" newComment w1] p s1 by simp
        show ?thesis
        proof (cases r2)
          case (Inl e)
          then show ?thesis
            using g s2 Inr Some False p by (simp add: persist_comment_def newComment_def [symmetric])
        next
          case (Inr name)
          obtain r3 w3 where q: "put_commentCount (uid usr) (commentCount userData + 1) w2 = (r3, w3)"
            by (cases "put_commentCount (uid usr) (commentCount userData + 1) w2")
          have s3: "storage w3 = storage w"
            using put_commentCount_frame [of "uid usr" "commentCount userData + 1" w2] q s2 by simp
          show ?thesis
          proof (cases r3)
            case (Inl e)
            then show ?thesis
              using g s3 \<open>r1 = Inr ud\<close> Some False p Inr q
              by (simp add: persist_comment_def newComment_def [symmetric])
          next
            case (Inr u)
            then show ?thesis
              using g s3 \<open>r1 = Inr ud\<close> Some False p \<open>r2 = Inr name\<close> q
              by (simp add: persist_comment_def newComment_def [symmetric] cacheCommentLocally_cached
                    cached_comments_def Let_def)
          qed
        qed
      qed
    qed
  qed
qed

lemma handleSaveComment_cached:
  "(\<exists>saved. fst (handleSaveComment cd now created w) = Inr saved \<and>
      cached (storage (snd (handleSaveComment cd now created w))) =
        (cached (storage w))(cd_videoId cd \<mapsto> sort_comments (cached_comments w (cd_videoId cd) @ [saved]))) \<or>
   ((\<exists>f. fst (handleSaveComment cd now created w) = Inl f) \<and>
      cached (storage (snd (handleSaveComment cd now created w))) = cached (storage w))"
proof -
  define w0 where "w0 = (if currentUser w = None then initializeAuth w else w)"
  have c0: "cached (storage w0) = cached (storage w)"
    by (simp add: w0_def initializeAuth_cached)
  have cc: "\<And>rl cf. cached_comments (w0\<lparr>limiter := rl, contentFilter := cf\<rparr>) (cd_videoId cd) = cached_comments w (cd_videoId cd)"
    using c0 by (simp add: cached_comments_def)
  have h: "handleSaveComment cd now created w =
     (case currentUser w0 of
        None \<Rightarrow> (Inl (Thrown TypeError), w0)
      | Some usr \<Rightarrow>
          (case check (limiter w0) (uid usr) ''comment'' now of
             (Inl e, rl) \<Rightarrow> (Inl (Thrown e), w0\<lparr>limiter := rl\<rparr>)
           | (Inr False, rl) \<Rightarrow>
               (Inl (Message ''Rate limit exceeded. Please wait before posting again.''), w0\<lparr>limiter := rl\<rparr>)
           | (Inr True, rl) \<Rightarrow>
               (case filterContent (contentFilter w0) (cd_text cd) of
                  (Inl e, cf) \<Rightarrow> (Inl (Thrown e), w0\<lparr>limiter := rl, contentFilter := cf\<rparr>)
                | (Inr filterResult, cf) \<Rightarrow>
                    if \<not> isClean filterResult
                    then (Inl (Message (join (violations filterResult) ''. '')),
                          w0\<lparr>limiter := rl, contentFilter := cf\<rparr>)
                    else persist_comment cd created usr (w0\<lparr>limiter := rl, contentFilter := cf\<rparr>))))"
    by (simp only: handleSaveComment_def w0_def Let_def)
  show ?thesis
  proof (cases "currentUser w0")
    case None
    then show ?thesis using c0 by (simp add: h)
  next
    case (Some usr)
    obtain r1 rl where k: "check (limiter w0) (uid usr) ''comment'' now = (r1, rl)"
      by (cases "check (limiter w0) (uid usr) ''comment'' now")
    show ?thesis
    proof (cases r1)
      case (Inl e)
      then show ?thesis using c0 Some k by (simp add: h)
    next
      case (Inr admitted)
      show ?thesis
      proof (cases admitted)
        case False
        then show ?thesis using c0 Some k Inr by (simp add: h)
      next
        case True
        obtain r2 cf where f: "filterContent (contentFilter w0) (cd_text cd) = (r2, cf)"
          by (cases "filterContent (contentFilter w0) (cd_text cd)")
        show ?thesis
        proof (cases r2)
          case (Inl e)
          then show ?thesis using c0 Some k \<open>r1 = Inr admitted\<close> True f by (simp add: h)
        next
          case (Inr filterResult)
          show ?thesis
          proof (cases "isClean filterResult")
            case False
            then show ?thesis using c0 Some k \<open>r1 = Inr admitted\<close> True f Inr by (simp add: h)
          next
            case clean: True
            have e: "handleSaveComment cd now created w =
                       persist_comment cd created usr (w0\<lparr>limiter := rl, contentFilter := cf\<rparr>)"
              using Some k \<open>r1 = Inr admitted\<close> True f Inr clean by (simp add: h)
            show ?thesis
              using persist_comment_cached [of cd created usr "w0\<lparr>limiter := rl, contentFilter := cf\<rparr>"]
              by (simp add: e cc c0)
          qed
        qed
      qed
    qed
  qed
qed


lemma handleLikeComment_cached:
  "cached (storage (snd (handleLikeComment c now w))) = cached (storage w)"
proof -
  define w0 where "w0 = (if currentUser w = None then initializeAuth w else w)"
  have c0: "cached (storage w0) = cached (storage w)"
    by (simp add: w0_def initializeAuth_cached)
  have "cached (storage (snd (handleLikeComment c now w))) = cached (storage w0)"
    unfolding handleLikeComment_def Let_def w0_def [symmetric]
    by (auto simp: get_like_def put_like_def delete_like_def fetch_def
          split: option.splits prod.splits sum.splits bool.splits list.splits)
  then show ?thesis by (simp add: c0)
qed

lemma cache_sorted_upd:
  "cache_sorted w \<Longrightarrow> sorted (map timestamp cs) \<Longrightarrow>
   cached (storage w') = (cached (storage w))(v \<mapsto> cs) \<Longrightarrow> cache_sorted w'"
  by (simp add: cache_sorted_def)

lemma cache_sorted_same:
  "cache_sorted w \<Longrightarrow> cached (storage w') = cached (storage w) \<Longrightarrow> cache_sorted w'"
  by (simp add: cache_sorted_def)

lemma reachable_cache_sorted: "reachable w \<Longrightarrow> cache_sorted w"
proof (induction rule: reachable.induct)
  case (start w)
  then show ?case by (simp add: cache_sorted_def)
next
  case (outside w r n s d)
  then show ?case by (simp add: cache_sorted_def)
next
  case (auth w)
  then show ?case by (simp add: cache_sorted_def initializeAuth_cached)
next
  case (save w cd now created)
  show ?case
    using handleSaveComment_cached [of cd now created w] save.IH
    by (auto intro: cache_sorted_same
             intro: cache_sorted_upd [OF _ sorted_sort_comments])
next
  case (load w videoId)
  show ?case
    using handleLoadComments_cached [of videoId w] load.IH
    by (auto intro: cache_sorted_upd cache_sorted_same)
next
  case (like w commentId now)
  show ?case
    using handleLikeComment_cached [of commentId now w] like.IH
    by (auto intro: cache_sorted_same)
qed

lemma cache_sorted_cached_comments: "cache_sorted w \<Longrightarrow> sorted (map timestamp (cached_comments w v))"
  by (auto simp: cache_sorted_def cached_comments_def split: option.splits)


text \<open>
  C5, as the code has it.  When a fetch is rejected during a load (the \<open>try\<close> block
  throws), \<open>handleLoadComments\<close> answers with success and the list cached for the key, the
  empty list when there is none, and leaves the local storage as it was.  After a load
  that fetched a non-empty set of comments, the list cached for the key is the list that
  load answered; after a comment is saved, it is the list cached before with the saved
  comment inserted in timestamp order; at the start nothing is cached.
\<close>

theorem load_falls_back_to_cache:
  "(\<forall>e. fst (try_load v w) = Inl e \<longrightarrow>
      fst (handleLoadComments v w) = Inr (cached_comments w v) \<and>
      storage (snd (handleLoadComments v w)) = storage w) \<and>
   (\<forall>cs w'. try_load v w = (Inr cs, w') \<and> comments_at (remote w) v \<noteq> [] \<longrightarrow>
      handleLoadComments v w = (Inr cs, w') \<and> cached_comments w' v = cs) \<and>
   (\<forall>saved w'. handleSaveComment cd now created w = (Inr saved, w') \<longrightarrow>
      cached_comments w' (cd_videoId cd) = sort_comments (cached_comments w (cd_videoId cd) @ [saved])) \<and>
   cached_comments (background_start r n s d) v = []"
proof (intro conjI allI impI)
  fix e assume f: "fst (try_load v w) = Inl e"
  obtain w1 where t: "try_load v w = (Inl e, w1)" using f by (cases "try_load v w") simp
  have s: "storage w1 = storage w" using try_load_failed [OF f] t by simp
  show "fst (handleLoadComments v w) = Inr (cached_comments w v)"
    using t s by (simp add: handleLoadComments_def cached_comments_def)
  show "storage (snd (handleLoadComments v w)) = storage w"
    using t s by (simp add: handleLoadComments_def)
next
  fix cs w' assume h: "try_load v w = (Inr cs, w') \<and> comments_at (remote w) v \<noteq> []"
  then show "handleLoadComments v w = (Inr cs, w')" by (simp add: handleLoadComments_def)
  show "cached_comments w' v = cs" using try_load_loaded(2) h by blast
next
  fix saved w' assume h: "handleSaveComment cd now created w = (Inr saved, w')"
  then show "cached_comments w' (cd_videoId cd) = sort_comments (cached_comments w (cd_videoId cd) @ [saved])"
    using handleSaveComment_cached [of cd now created w] by (auto simp: cached_comments_def)
next
  show "cached_comments (background_start r n s d) v = []"
    by (simp add: cached_comments_def background_start_def)
qed

theorem load_falls_back_to_cache_witness:
  "(let c1 = \<lparr>comment_text = ''hello'', timestamp = 5, authorId = ''u2'', authorName = ''Ann'',
              likes = 0, createdAt = 1, platform = None\<rparr>;
        r1 = remote_empty\<lparr>comments_at := (\<lambda>v. if v = ''v'' then [(''k1'', c1)] else []),
                          users := [''u1'' \<mapsto> \<lparr>displayName = Some ''Bo'', commentCount = 2, banned = False\<rparr>]\<rparr>;
        w0 = (background_start r1 [] None [])\<lparr>currentUser := Some \<lparr>uid = ''u1'', token = ''t1''\<rparr>\<rparr>;
        cd = \<lparr>cd_videoId = ''v'', cd_text = ''hi'', cd_timestamp = 2, cd_platform = None\<rparr>
    in comments_at (remote w0) ''v'' \<noteq> [] \<and>
       fst (try_load ''v'' w0) = Inr [loaded_comment (''k1'', c1)] \<and>
       cached_comments (snd (try_load ''v'' w0)) ''v'' = [loaded_comment (''k1'', c1)] \<and>
       fst (try_load ''v'' ((snd (try_load ''v'' w0))\<lparr>net := [False]\<rparr>)) = Inl FetchFailed \<and>
       fst (handleLoadComments ''v'' ((snd (try_load ''v'' w0))\<lparr>net := [False]\<rparr>)) = Inr [loaded_comment (''k1'', c1)] \<and>
       map timestamp (cached_comments (snd (handleSaveComment cd 1000 1001 (snd (try_load ''v'' w0)))) ''v'') = [2, 5])"
proof -
  define c1 where "c1 = \<lparr>comment_text = ''hello'', timestamp = 5, authorId = ''u2'', authorName = ''Ann'',
              likes = 0, createdAt = 1, platform = None\<rparr>"
  define w0 where "w0 = (background_start
       (remote_empty\<lparr>comments_at := (\<lambda>v. if v = ''v'' then [(''k1'', c1)] else []),
                          users := [''u1'' \<mapsto> \<lparr>displayName = Some ''Bo'', commentCount = 2, banned = False\<rparr>]\<rparr>)
       [] None [])\<lparr>currentUser := Some \<lparr>uid = ''u1'', token = ''t1''\<rparr>\<rparr>"
  define cd where "cd = \<lparr>cd_videoId = ''v'', cd_text = ''hi'', cd_timestamp = 2, cd_platform = None\<rparr>"
  define w1 where "w1 = snd (try_load ''v'' w0)"
  define w2 where "w2 = w1\<lparr>net := [False]\<rparr>"
  have ne: "comments_at (remote w0) ''v'' \<noteq> []"
    unfolding w0_def c1_def by code_simp
  have t0: "fst (try_load ''v'' w0) = Inr [loaded_comment (''k1'', c1)]"
    unfolding w0_def c1_def by code_simp
  then have t0': "try_load ''v'' w0 = (Inr [loaded_comment (''k1'', c1)], w1)"
    by (simp add: w1_def prod_eq_iff)
  have t2: "fst (try_load ''v'' w2) = Inl FetchFailed"
    unfolding w2_def w1_def w0_def c1_def by code_simp
  have s: "fst (handleSaveComment cd 1000 1001 w1) =
             Inr \<lparr>comment_text = ''hi'', timestamp = 2, authorId = ''u1'', authorName = ''Bo'',
                  likes = 0, createdAt = 1001, platform = None, comment_id = ''-'', replies = None,
                  likedByUser = None\<rparr>"
    unfolding cd_def w1_def w0_def c1_def by code_simp
  have k1: "cached_comments w1 ''v'' = [loaded_comment (''k1'', c1)]"
    using load_falls_back_to_cache [of "''v''" w0] t0' ne by blast
  have "cached_comments w2 ''v'' = cached_comments w1 ''v''"
    by (simp add: w2_def cached_comments_def)
  then have k2: "fst (handleLoadComments ''v'' w2) = Inr [loaded_comment (''k1'', c1)]"
    using load_falls_back_to_cache [of "''v''" w2] t2 k1 by simp
  have "cached_comments (snd (handleSaveComment cd 1000 1001 w1)) (cd_videoId cd) =
          sort_comments (cached_comments w1 (cd_videoId cd) @
            [\<lparr>comment_text = ''hi'', timestamp = 2, authorId = ''u1'', authorName = ''Bo'',
                  likes = 0, createdAt = 1001, platform = None, comment_id = ''-'', replies = None,
                  likedByUser = None\<rparr>])"
    using load_falls_back_to_cache [of "''v''" w1 cd 1000 1001] s
    by (metis prod.collapse)
  then have k3: "map timestamp (cached_comments (snd (handleSaveComment cd 1000 1001 w1)) ''v'') = [2, 5]"
    by (simp add: cd_def k1 sort_comments_def loaded_comment_def c1_def comment_data.defs)
  show ?thesis
    using ne t0 k1 t2 k2 k3
    unfolding Let_def c1_def [symmetric] w0_def [symmetric] cd_def [symmetric] w1_def [symmetric] w2_def [symmetric]
    by simp
qed

text \<open>
  C5, as the claim states it, fails: a load fetches one comment and caches it; the comment
  is then gone from the remote store and a second load succeeds with the empty list,
  leaving the cache as it was; a third load whose fetch is rejected answers the cached
  comment, which is not what the last successful load answered.
\<close>

theorem stale_cache_after_empty_load:
  "(let c1 = \<lparr>comment_text = ''hello'', timestamp = 5, authorId = ''u2'', authorName = ''Ann'',
              likes = 0, createdAt = 1, platform = None\<rparr>;
        r1 = remote_empty\<lparr>comments_at := (\<lambda>v. if v = ''v'' then [(''k1'', c1)] else [])\<rparr>;
        (a1, w1) = handleLoadComments ''v'' (background_start r1 [] None []);
        (a2, w2) = handleLoadComments ''v'' (w1\<lparr>remote := remote_empty\<rparr>);
        (a3, w3) = handleLoadComments ''v'' (w2\<lparr>net := [False]\<rparr>)
    in a1 = Inr [loaded_comment (''k1'', c1)] \<and>
       fst (try_load ''v'' (w1\<lparr>remote := remote_empty\<rparr>)) = Inr [] \<and>
       a2 = Inr [] \<and>
       fst (try_load ''v'' (w2\<lparr>net := [False]\<rparr>)) = Inl FetchFailed \<and>
       a3 = Inr [loaded_comment (''k1'', c1)] \<and>
       a3 \<noteq> a2)"
  by code_simp

text \<open>
  C6.  In every state the background script can reach, a load answers with success and a
  list in which the timestamps never decrease, whether the list comes from the remote
  store or from the cache; and caching a new comment gives a list of the cached comments
  and the new one, again in the order of the timestamps.
\<close>

theorem loaded_comments_sorted:
  assumes "reachable w"
  shows "(\<exists>cs. fst (handleLoadComments v w) = Inr cs \<and> sorted (map timestamp cs)) \<and>
         sorted (map timestamp (cached_comments (cacheCommentLocally v c w) v)) \<and>
         set (cached_comments (cacheCommentLocally v c w) v) = insert c (set (cached_comments w v))"
proof (intro conjI)
  have cs: "cache_sorted w" using assms by (rule reachable_cache_sorted)
  show "\<exists>cs. fst (handleLoadComments v w) = Inr cs \<and> sorted (map timestamp cs)"
  proof (cases "try_load v w")
    case (Pair r w1)
    show ?thesis
    proof (cases r)
      case (Inl e)
      have "storage w1 = storage w" using try_load_failed [of v w e] Pair Inl by simp
      then have "cached_comments w1 v = cached_comments w v" by (simp add: cached_comments_def)
      then show ?thesis
        using Pair Inl cache_sorted_cached_comments [OF cs, of v] by (simp add: handleLoadComments_def)
    next
      case (Inr cs)
      then have "try_load v w = (Inr cs, w1)" using Pair by simp
      from try_load_loaded(1) [OF this] show ?thesis using Pair Inr by (simp add: handleLoadComments_def)
    qed
  qed
  show "sorted (map timestamp (cached_comments (cacheCommentLocally v c w) v))"
    by (simp add: cacheCommentLocally_def cached_set_cached sorted_sort_comments)
  show "set (cached_comments (cacheCommentLocally v c w) v) = insert c (set (cached_comments w v))"
    by (simp add: cacheCommentLocally_def cached_set_cached sort_comments_def)
qed


theorem loaded_comments_sorted_witness:
  "(let c1 = \<lparr>comment_text = ''later'', timestamp = 9, authorId = ''u2'', authorName = ''Ann'',
              likes = 0, createdAt = 1, platform = None\<rparr>;
        c2 = \<lparr>comment_text = ''sooner'', timestamp = 4, authorId = ''u3'', authorName = ''Cy'',
              likes = 0, createdAt = 2, platform = None\<rparr>;
        r1 = remote_empty\<lparr>comments_at := (\<lambda>v. if v = ''v'' then [(''k1'', c1), (''k2'', c2)] else [])\<rparr>;
        w = background_start r1 [] None []
    in reachable w \<and>
       fst (handleLoadComments ''v'' w) = Inr [loaded_comment (''k2'', c2), loaded_comment (''k1'', c1)] \<and>
       sorted (map timestamp [loaded_comment (''k2'', c2), loaded_comment (''k1'', c1)]) \<and>
       sorted (map timestamp (cached_comments (cacheCommentLocally ''v'' (loaded_comment (''k1'', c1)) w) ''v'')))"
proof -
  define c1 where "c1 = \<lparr>comment_text = ''later'', timestamp = 9, authorId = ''u2'', authorName = ''Ann'',
              likes = 0, createdAt = 1, platform = None\<rparr>"
  define c2 where "c2 = \<lparr>comment_text = ''sooner'', timestamp = 4, authorId = ''u3'', authorName = ''Cy'',
              likes = 0, createdAt = 2, platform = None\<rparr>"
  define w where "w = background_start
      (remote_empty\<lparr>comments_at := (\<lambda>v. if v = ''v'' then [(''k1'', c1), (''k2'', c2)] else [])\<rparr>) [] None []"
  have r: "reachable w"
    by (rule reachable.start) (simp add: w_def background_start_def)
  have l: "fst (handleLoadComments ''v'' w) = Inr [loaded_comment (''k2'', c2), loaded_comment (''k1'', c1)]"
    unfolding w_def c1_def c2_def by code_simp
  have "sorted (map timestamp [loaded_comment (''k2'', c2), loaded_comment (''k1'', c1)]) \<and>
        sorted (map timestamp (cached_comments (cacheCommentLocally ''v'' (loaded_comment (''k1'', c1)) w) ''v''))"
    using loaded_comments_sorted [OF r, of "''v''" "loaded_comment (''k1'', c1)"] l by auto
  then show ?thesis
    using r l
    unfolding Let_def c1_def [symmetric] c2_def [symmetric] w_def [symmetric]
    by simp
qed

subsection \<open>Likes\<close>

lemma map_of_update_key: "map_of (update_key k v kvs) = (map_of kvs)(k \<mapsto> v)"
  by (induction kvs) (auto simp: fun_eq_iff)

lemma map_of_delete_key: "map_of (delete_key k kvs) = (map_of kvs)(k := None)"
  by (induction kvs) (auto simp: delete_key_def fun_eq_iff)

lemma delete_update_key: "map_of kvs k = None \<Longrightarrow> delete_key k (update_key k v kvs) = kvs"
proof (induction kvs)
  case Nil
  show ?case by (simp add: delete_key_def)
next
  case (Cons kv kvs)
  obtain k' v' where kv: "kv = (k', v')" by (cases kv)
  from Cons.prems have ne: "k' \<noteq> k" and rest: "map_of kvs k = None"
    by (auto simp: kv split: if_splits)
  from Cons.IH [OF rest] ne show ?case
    by (simp add: kv delete_key_def)
qed

lemma like_first:
  assumes "currentUser w = Some usr" and "handleLikeComment c now w = (Inr b, w1)"
  shows "currentUser w1 = Some usr"
    and "b = (like_state (remote w) c (uid usr) \<noteq> Some True)"
    and "like_state (remote w1) = (like_state (remote w))(c := (like_state (remote w) c)(uid usr := if b then Some True else None))"
    and "b \<Longrightarrow> remote w1 = (remote w)\<lparr>likes_at := (likes_at (remote w))(c := update_key (uid usr) True (likes_at (remote w) c))\<rparr>"
    and "\<not> b \<Longrightarrow> remote w1 = (remote w)\<lparr>likes_at := (likes_at (remote w))(c := delete_key (uid usr) (likes_at (remote w) c))\<rparr>"
  using assms
  by (auto simp: handleLikeComment_def Let_def get_like_def put_like_def delete_like_def fetch_def
        like_state_def map_of_update_key map_of_delete_key fun_eq_iff
      split: prod.splits sum.splits bool.splits list.splits if_splits)



text \<open>
  C10.  For a signed-in actor and a comment, two successful calls of \<open>handleLikeComment\<close> in
  a row: when the remote store holds no like of the actor for the comment, the first call
  stores one and answers \<open>liked = true\<close>, the second removes it and answers
  \<open>liked = false\<close>, and the remote store is as it was; when it holds a like (the value
  \<open>true\<close>), the first call removes it and answers \<open>false\<close>, the second stores it again and
  answers \<open>true\<close>.  In both cases every like of the remote store has its first value again.
\<close>

theorem like_toggles:
  assumes "currentUser w = Some usr"
    and "handleLikeComment c now1 w = (Inr b1, w1)"
    and "handleLikeComment c now2 w1 = (Inr b2, w2)"
    and "like_state (remote w) c (uid usr) \<noteq> Some False"
  shows "(like_state (remote w) c (uid usr) = None \<longrightarrow>
            b1 \<and> like_state (remote w1) c (uid usr) = Some True \<and> \<not> b2 \<and> remote w2 = remote w) \<and>
         (like_state (remote w) c (uid usr) = Some True \<longrightarrow>
            \<not> b1 \<and> like_state (remote w1) c (uid usr) = None \<and> b2) \<and>
         like_state (remote w2) = like_state (remote w)"
proof -
  note f = like_first [OF assms(1) assms(2)]
  note g = like_first [OF f(1) assms(3)]
  show ?thesis
  proof (cases "like_state (remote w) c (uid usr)")
    case None
    have b1: "b1" using f(2) None by simp
    have s1: "like_state (remote w1) c (uid usr) = Some True" using f(3) b1 by simp
    have b2: "\<not> b2" using g(2) s1 by simp
    have r1: "remote w1 = (remote w)\<lparr>likes_at := (likes_at (remote w))(c := update_key (uid usr) True (likes_at (remote w) c))\<rparr>"
      using f(4) b1 by simp
    have r2: "remote w2 = (remote w1)\<lparr>likes_at := (likes_at (remote w1))(c := delete_key (uid usr) (likes_at (remote w1) c))\<rparr>"
      using g(5) b2 by simp
    have "map_of (likes_at (remote w) c) (uid usr) = None"
      using None by (simp add: like_state_def)
    then have "delete_key (uid usr) (update_key (uid usr) True (likes_at (remote w) c)) = likes_at (remote w) c"
      by (rule delete_update_key)
    then have r: "remote w2 = remote w"
      by (simp add: r1 r2)
    show ?thesis using None b1 s1 b2 r by simp
  next
    case (Some x)
    then have x: "like_state (remote w) c (uid usr) = Some True" using assms(4) by (cases x) auto
    have b1: "\<not> b1" using f(2) x by simp
    have s1: "like_state (remote w1) c (uid usr) = None" using f(3) b1 by simp
    have b2: "b2" using g(2) s1 by simp
    have "like_state (remote w2) = like_state (remote w)"
      using g(3) f(3) b1 b2 x by (auto simp: fun_eq_iff)
    then show ?thesis using x b1 s1 b2 by simp
  qed
qed

theorem like_toggles_witness:
  "(let w = (background_start remote_empty [] None [])\<lparr>currentUser := Some \<lparr>uid = ''u1'', token = ''t1''\<rparr>\<rparr>;
        w1 = snd (handleLikeComment ''c1'' 10 w);
        w2 = snd (handleLikeComment ''c1'' 20 w1);
        w3 = snd (handleLikeComment ''c1'' 30 w2)
    in currentUser w = Some \<lparr>uid = ''u1'', token = ''t1''\<rparr> \<and>
       like_state (remote w) ''c1'' ''u1'' = None \<and>
       fst (handleLikeComment ''c1'' 10 w) = Inr True \<and>
       like_state (remote w1) ''c1'' ''u1'' = Some True \<and>
       fst (handleLikeComment ''c1'' 20 w1) = Inr False \<and>
       remote w2 = remote w \<and>
       fst (handleLikeComment ''c1'' 30 w2) = Inr True \<and>
       like_state (remote w3) = like_state (remote w1))"
proof -
  define w where "w = (background_start remote_empty [] None [])\<lparr>currentUser := Some \<lparr>uid = ''u1'', token = ''t1''\<rparr>\<rparr>"
  define w1 where "w1 = snd (handleLikeComment ''c1'' 10 w)"
  define w2 where "w2 = snd (handleLikeComment ''c1'' 20 w1)"
  define w3 where "w3 = snd (handleLikeComment ''c1'' 30 w2)"
  have u: "currentUser w = Some \<lparr>uid = ''u1'', token = ''t1''\<rparr>" by (simp add: w_def)
  have n: "like_state (remote w) ''c1'' ''u1'' = None"
    unfolding w_def by code_simp
  have a1: "fst (handleLikeComment ''c1'' 10 w) = Inr True"
    unfolding w_def by code_simp
  have a2: "fst (handleLikeComment ''c1'' 20 w1) = Inr False"
    unfolding w1_def w_def by code_simp
  have a3: "fst (handleLikeComment ''c1'' 30 w2) = Inr True"
    unfolding w2_def w1_def w_def by code_simp
  have u1: "currentUser w1 = Some \<lparr>uid = ''u1'', token = ''t1''\<rparr>"
    unfolding w1_def w_def by code_simp
  have h1: "handleLikeComment ''c1'' 10 w = (Inr True, w1)" using a1 by (simp add: w1_def prod_eq_iff)
  have h2: "handleLikeComment ''c1'' 20 w1 = (Inr False, w2)" using a2 by (simp add: w2_def prod_eq_iff)
  have h3: "handleLikeComment ''c1'' 30 w2 = (Inr True, w3)" using a3 by (simp add: w3_def prod_eq_iff)
  have n': "like_state (remote w) ''c1'' (uid \<lparr>uid = ''u1'', token = ''t1''\<rparr>) \<noteq> Some False"
    using n by simp
  have first: "like_state (remote w1) ''c1'' ''u1'' = Some True \<and> remote w2 = remote w"
    using like_toggles [OF u h1 h2 n'] n by simp
  then have n1: "like_state (remote w1) ''c1'' (uid \<lparr>uid = ''u1'', token = ''t1''\<rparr>) \<noteq> Some False"
    by simp
  have second: "like_state (remote w3) = like_state (remote w1)"
    using like_toggles [OF u1 h2 h3 n1] by simp
  show ?thesis
    using u n a1 a2 a3 first second
    unfolding Let_def w_def [symmetric] w1_def [symmetric] w2_def [symmetric] w3_def [symmetric]
    by simp
qed

section \<open>Proofs: regular expressions\<close>

text \<open>
  The matcher only moves forward, a bounded pattern consumes no more than its width, and
  a capture is no longer than what its group can consume.  The first fact is what the two
  guards written with \<open><\<close> and \<open>\<le>\<close> in \<open>matches\<close> and \<open>replace_spans\<close> rest on.
\<close>

lemma advance_rest: "snd (advance cur n) = drop n (snd cur)"
  by (simp add: advance_def)

lemma rest_suffix: "c # cs = xs \<Longrightarrow> suffix cs xs"
  by (auto simp: suffix_def)

lemma matches_shorter:
  "(cur', caps') \<in> set (matches r ic cur caps) \<Longrightarrow> suffix (snd cur') (snd cur)"
proof (induction r ic cur caps arbitrary: cur' caps' rule: matches.induct)
  case (1 ic cur caps)
  then show ?case by (simp add: matches.simps)
next
  case (2 a ic cur caps)
  then show ?case by (auto simp: matches.simps split: list.splits if_splits intro: rest_suffix)
next
  case (3 ic cur caps)
  then show ?case by (auto simp: matches.simps split: list.splits if_splits intro: rest_suffix)
next
  case (4 negated items ic cur caps)
  then show ?case by (auto simp: matches.simps split: list.splits if_splits intro: rest_suffix)
next
  case (5 r1 r2 ic cur caps)
  from "5.prems" obtain cur1 caps1 where
    a: "(cur1, caps1) \<in> set (matches r1 ic cur caps)" and
    b: "(cur', caps') \<in> set (matches r2 ic cur1 caps1)"
    by (auto simp: matches.simps(5))
  from "5.IH"(1) [OF a] "5.IH"(2) [OF a refl b] show ?case
    using suffix_order.trans by blast
next
  case (6 n r ic cur caps)
  then show ?case by (auto simp: matches.simps(6))
next
  case (7 n ic cur caps)
  then show ?case by (auto split: option.splits if_splits simp: matches.simps(7) advance_rest suffix_drop)
next
  case (8 mn mx r ic cur caps)
  show ?case
  proof (cases "mx = Some 0")
    case True
    then show ?thesis using "8.prems" by (simp add: matches.simps(8))
  next
    case False
    show ?thesis
    proof (cases "(cur', caps') = (cur, caps)")
      case True
      then show ?thesis by simp
    next
      case stop: False
      from "8.prems" False stop obtain cur1 caps1 where
        a: "(cur1, caps1) \<in> set (matches r ic cur (clear (groups r) caps))" and
        g: "\<not> (mn = 0 \<and> \<not> length (snd cur1) < length (snd cur))" and
        b: "(cur', caps') \<in> set (matches (Repeat (mn - 1) (map_option (\<lambda>k. k - 1) mx) r) ic cur1 caps1)"
        by (subst (asm) matches.simps(8)) (auto simp: Let_def split: if_splits)
      from "8.IH"(1) [OF False a] "8.IH"(2) [OF False a refl g b] show ?thesis
        using suffix_order.trans by blast
    qed
  qed
next
  case (9 ic cur caps)
  then show ?case by (auto simp: matches.simps split: if_splits)
next
  case (10 ic cur caps)
  then show ?case by (auto simp: matches.simps split: if_splits)
next
  case (11 ic cur caps)
  then show ?case by (auto simp: matches.simps split: if_splits)
qed


lemma rest_length: "c # cs = xs \<Longrightarrow> length xs \<le> Suc (length cs)"
  by auto

lemma matches_width:
  "(cur', caps') \<in> set (matches r ic cur caps) \<Longrightarrow> width r = Some b \<Longrightarrow>
   length (snd cur) \<le> length (snd cur') + b"
proof (induction r ic cur caps arbitrary: cur' caps' b rule: matches.induct)
  case (1 ic cur caps)
  then show ?case by (simp add: matches.simps)
next
  case (2 a ic cur caps)
  then show ?case by (auto simp: matches.simps split: list.splits if_splits dest: rest_length)
next
  case (3 ic cur caps)
  then show ?case by (auto simp: matches.simps split: list.splits if_splits dest: rest_length)
next
  case (4 negated items ic cur caps)
  then show ?case by (auto simp: matches.simps split: list.splits if_splits dest: rest_length)
next
  case (5 r1 r2 ic cur caps)
  from "5.prems"(1) obtain cur1 caps1 where
    a: "(cur1, caps1) \<in> set (matches r1 ic cur caps)" and
    b: "(cur', caps') \<in> set (matches r2 ic cur1 caps1)"
    by (auto simp: matches.simps(5))
  from "5.prems"(2) obtain b1 b2 where w: "width r1 = Some b1" "width r2 = Some b2" "b = b1 + b2"
    by (auto split: option.splits)
  from "5.IH"(1) [OF a w(1)] "5.IH"(2) [OF a refl b w(2)] w(3) show ?case by simp
next
  case (6 n r ic cur caps)
  then show ?case by (auto simp: matches.simps(6))
next
  case (7 n ic cur caps)
  then show ?case by simp
next
  case (8 mn mx r ic cur caps)
  from "8.prems"(2) obtain k a where w: "mx = Some k" "width r = Some a" "b = k * a"
    by (auto split: option.splits)
  show ?case
  proof (cases "mx = Some 0")
    case True
    then show ?thesis using "8.prems" by (simp add: matches.simps(8))
  next
    case False
    show ?thesis
    proof (cases "(cur', caps') = (cur, caps)")
      case True
      then show ?thesis by simp
    next
      case stop: False
      from "8.prems"(1) False stop obtain cur1 caps1 where
        a: "(cur1, caps1) \<in> set (matches r ic cur (clear (groups r) caps))" and
        g: "\<not> (mn = 0 \<and> \<not> length (snd cur1) < length (snd cur))" and
        b: "(cur', caps') \<in> set (matches (Repeat (mn - 1) (map_option (\<lambda>k. k - 1) mx) r) ic cur1 caps1)"
        by (subst (asm) matches.simps(8)) (auto simp: Let_def split: if_splits)
      have k: "0 < k" using False w(1) by simp
      have w': "width (Repeat (mn - 1) (map_option (\<lambda>k. k - 1) mx) r) = Some ((k - 1) * a)"
        using w by simp
      have "a + (k - 1) * a = k * a"
        using k by (cases k) simp_all
      with "8.IH"(1) [OF False a w(2)] "8.IH"(2) [OF False a refl g b w'] w(3)
      show ?thesis by linarith
    qed
  qed
next
  case (9 ic cur caps)
  then show ?case by (auto simp: matches.simps split: if_splits)
next
  case (10 ic cur caps)
  then show ?case by (auto simp: matches.simps split: if_splits)
next
  case (11 ic cur caps)
  then show ?case by (auto simp: matches.simps split: if_splits)
qed

lemma captures_within_clear: "captures_within b caps \<Longrightarrow> captures_within b (clear ns caps)"
  by (simp add: captures_within_def clear_def)

lemma matches_captures:
  "(cur', caps') \<in> set (matches r ic cur caps) \<Longrightarrow> groups_within b r \<Longrightarrow>
   captures_within b caps \<Longrightarrow> captures_within b caps'"
proof (induction r ic cur caps arbitrary: cur' caps' rule: matches.induct)
  case (1 ic cur caps)
  then show ?case by (simp add: matches.simps)
next
  case (2 a ic cur caps)
  then show ?case by (auto simp: matches.simps split: list.splits if_splits)
next
  case (3 ic cur caps)
  then show ?case by (auto simp: matches.simps split: list.splits if_splits)
next
  case (4 negated items ic cur caps)
  then show ?case by (auto simp: matches.simps split: list.splits if_splits)
next
  case (5 r1 r2 ic cur caps)
  from "5.prems"(1) obtain cur1 caps1 where
    a: "(cur1, caps1) \<in> set (matches r1 ic cur caps)" and
    b: "(cur', caps') \<in> set (matches r2 ic cur1 caps1)"
    by (auto simp: matches.simps(5))
  from "5.prems"(2) have g: "groups_within b r1" "groups_within b r2" by simp_all
  from "5.IH"(2) [OF a refl b g(2) "5.IH"(1) [OF a g(1) "5.prems"(3)]] show ?case .
next
  case (6 n r ic cur caps)
  from "6.prems"(1) obtain caps1 where
    a: "(cur', caps1) \<in> set (matches r ic cur caps)" and
    c: "caps' = caps1(n \<mapsto> take (length (snd cur) - length (snd cur')) (snd cur))"
    by (auto simp: matches.simps(6))
  from "6.prems"(2) obtain a' where w: "width r = Some a'" "a' \<le> b" and g: "groups_within b r"
    by (auto split: option.splits)
  have "length (snd cur) - length (snd cur') \<le> b"
    using matches_width [OF a w(1)] w(2) by simp
  moreover have "captures_within b caps1"
    using "6.IH" [OF a g "6.prems"(3)] .
  ultimately show ?case
    by (auto simp: c captures_within_def)
next
  case (7 n ic cur caps)
  then show ?case by (auto simp: matches.simps(7) split: option.splits if_splits)
next
  case (8 mn mx r ic cur caps)
  show ?case
  proof (cases "mx = Some 0")
    case True
    then show ?thesis using "8.prems" by (simp add: matches.simps(8))
  next
    case False
    show ?thesis
    proof (cases "(cur', caps') = (cur, caps)")
      case True
      then show ?thesis using "8.prems"(3) by simp
    next
      case stop: False
      from "8.prems"(1) False stop obtain cur1 caps1 where
        a: "(cur1, caps1) \<in> set (matches r ic cur (clear (groups r) caps))" and
        g: "\<not> (mn = 0 \<and> \<not> length (snd cur1) < length (snd cur))" and
        b: "(cur', caps') \<in> set (matches (Repeat (mn - 1) (map_option (\<lambda>k. k - 1) mx) r) ic cur1 caps1)"
        by (subst (asm) matches.simps(8)) (auto simp: Let_def split: if_splits)
      have gr: "groups_within b r" using "8.prems"(2) by simp
      have c1: "captures_within b caps1"
        using "8.IH"(1) [OF False a gr captures_within_clear [OF "8.prems"(3)]] .
      have gr': "groups_within b (Repeat (mn - 1) (map_option (\<lambda>k. k - 1) mx) r)"
        using gr by simp
      show ?thesis
        using "8.IH"(2) [OF False a refl g b gr' c1] .
    qed
  qed
next
  case (9 ic cur caps)
  then show ?case by (auto simp: matches.simps split: if_splits)
next
  case (10 ic cur caps)
  then show ?case by (auto simp: matches.simps split: if_splits)
next
  case (11 ic cur caps)
  then show ?case by (auto simp: matches.simps split: if_splits)
qed

lemma match_at_captures:
  assumes "match_at r ic s i = Some (e, caps)" and "groups_within b r"
  shows "captures_within b caps"
proof -
  from assms(1) obtain cur' other where
    "matches r ic (advance (None, s) i) Map.empty = (cur', caps) # other"
    by (auto simp: match_at_def split: list.splits)
  then have "(cur', caps) \<in> set (matches r ic (advance (None, s) i) Map.empty)" by simp
  from matches_captures [OF this assms(2)] show ?thesis
    by (simp add: captures_within_def)
qed

lemma exec_from_captures:
  "exec_from r ic s i = Some (j, e, caps) \<Longrightarrow> groups_within b r \<Longrightarrow> captures_within b caps"
proof (induction r ic s i rule: exec_from.induct)
  case (1 r ic s i)
  show ?case
  proof (cases "match_at r ic s i")
    case None
    then show ?thesis
      using "1.prems" "1.IH"
      by (subst (asm) exec_from.simps) (auto split: if_splits)
  next
    case (Some m)
    then show ?thesis
      using "1.prems" match_at_captures [of r ic s i]
      by (subst (asm) exec_from.simps) (auto split: if_splits)
  qed
qed

lemma str_match_captures:
  "str_match r s = Some m \<Longrightarrow> groups_within b r \<Longrightarrow> captures_within b m"
  by (auto simp: str_match_def split: option.splits dest: exec_from_captures)


lemma matches_same_end:
  assumes "(cur', caps') \<in> set (matches r ic cur caps)"
  shows "(\<not> length (snd cur') < length (snd cur)) = (snd cur' = snd cur)"
proof -
  have s: "suffix (snd cur') (snd cur)" using assms by (rule matches_shorter)
  then have "length (snd cur') \<le> length (snd cur)" by (rule suffix_length_le)
  moreover have "length (snd cur') = length (snd cur) \<Longrightarrow> snd cur' = snd cur"
    using s by (auto simp: suffix_def)
  ultimately show ?thesis by auto
qed

lemma match_at_end:
  assumes "match_at r ic s i = Some (e, caps)" and "i \<le> length s"
  shows "i \<le> e \<and> e \<le> length s"
proof -
  from assms(1) obtain cur' other where
    m: "matches r ic (advance (None, s) i) Map.empty = (cur', caps) # other" and
    e: "e = length s - length (snd cur')"
    by (auto simp: match_at_def split: list.splits)
  have "(cur', caps) \<in> set (matches r ic (advance (None, s) i) Map.empty)" by (simp add: m)
  then have "suffix (snd cur') (snd (advance (None, s) i))" by (rule matches_shorter)
  then have "length (snd cur') \<le> length s - i"
    using suffix_length_le by (fastforce simp: advance_rest)
  then show ?thesis using assms(2) by (simp add: e)
qed


section \<open>Proofs: content script\<close>

lemma digit_value_range: "is_digit c \<Longrightarrow> 0 \<le> digit_value c \<and> digit_value c \<le> 9"
  by (auto simp: is_digit_def digit_value_def Let_def)

lemma foldl_digits_bound:
  "\<forall>c \<in> set ds. is_digit c \<Longrightarrow> 0 \<le> a \<Longrightarrow>
   0 \<le> foldl (\<lambda>n c. 10 * n + digit_value c) a ds \<and>
   foldl (\<lambda>n c. 10 * n + digit_value c) a ds + 1 \<le> (a + 1) * 10 ^ length ds"
proof (induction ds arbitrary: a)
  case Nil
  then show ?case by simp
next
  case (Cons c ds)
  have d: "0 \<le> digit_value c \<and> digit_value c \<le> 9"
    using Cons.prems(1) by (simp add: digit_value_range)
  then have a': "0 \<le> 10 * a + digit_value c" using Cons.prems(2) by simp
  have ih: "0 \<le> foldl (\<lambda>n c. 10 * n + digit_value c) (10 * a + digit_value c) ds \<and>
        foldl (\<lambda>n c. 10 * n + digit_value c) (10 * a + digit_value c) ds + 1
          \<le> (10 * a + digit_value c + 1) * 10 ^ length ds"
    using Cons.IH [OF _ a'] Cons.prems(1) by simp
  have "(10 * a + digit_value c + 1) * 10 ^ length ds \<le> (10 * (a + 1)) * 10 ^ length ds"
    using d by (intro mult_right_mono) simp_all
  also have "\<dots> = (a + 1) * 10 ^ length (c # ds)"
    by simp
  finally have "(10 * a + digit_value c + 1) * 10 ^ length ds \<le> (a + 1) * 10 ^ length (c # ds)" .
  with ih have "foldl (\<lambda>n c. 10 * n + digit_value c) (10 * a + digit_value c) ds + 1
                  \<le> (a + 1) * 10 ^ length (c # ds)"
    by linarith
  with ih show ?case by simp
qed

lemma parseInt_bound:
  assumes "parseInt s = Some n" and "length s \<le> 2"
  shows "0 \<le> n \<and> n \<le> 99"
proof -
  let ?ds = "takeWhile is_digit s"
  have n: "n = digits_value ?ds"
    using assms(1) by (auto simp: parseInt_def Let_def split: if_splits)
  have all: "\<forall>c \<in> set ?ds. is_digit c"
    by (auto dest: set_takeWhileD)
  have len: "length ?ds \<le> 2"
    using length_takeWhile_le [of is_digit s] assms(2) by linarith
  have b: "0 \<le> n \<and> n + 1 \<le> 10 ^ length ?ds"
    using foldl_digits_bound [OF all, of 0] by (simp add: n digits_value_def)
  have "(10::int) ^ length ?ds \<le> 10 ^ 2"
    using len by (intro power_increasing) simp_all
  then show ?thesis using b by simp
qed

lemma group_int_bound:
  "captures_within 2 m \<Longrightarrow> group_int m k = Some n \<Longrightarrow> 0 \<le> n \<and> n \<le> 99"
  by (auto simp: group_int_def captures_within_def split: option.splits dest!: parseInt_bound)

lemma hulu_time_bound:
  assumes "hulu_time p = Some v"
  shows "0 \<le> v \<and> v \<le> 6039"
proof -
  from assms obtain t m a b where
    m: "str_match time_ms t = Some m" and
    a: "group_int m 1 = Some a" and b: "group_int m 2 = Some b" and
    v: "v = a * 60 + b"
    by (auto simp: hulu_time_def total_seconds_def split: option.splits)
  have "captures_within 2 m"
    using str_match_captures [OF m, of 2] by (simp add: time_ms_def)
  from group_int_bound [OF this a] group_int_bound [OF this b] show ?thesis
    by (simp add: v)
qed

lemma netflix_time_bound:
  assumes "netflix_time p = Some v"
  shows "0 \<le> v \<and> v \<le> 362439"
proof -
  from assms obtain t m a b c where
    m: "str_match time_hms t = Some m" and
    a: "group_int m 1 = Some a" and b: "group_int m 2 = Some b" and c: "group_int m 3 = Some c" and
    v: "v = a * 3600 + b * 60 + c"
    by (auto simp: netflix_time_def total_seconds_def split: option.splits)
  have "captures_within 2 m"
    using str_match_captures [OF m, of 2] by (simp add: time_hms_def)
  from group_int_bound [OF this a] group_int_bound [OF this b] group_int_bound [OF this c]
  show ?thesis by (simp add: v)
qed

lemma control_time_bound: "control_time t = Some v \<Longrightarrow> 0 < v \<and> v < 86400"
  by (auto simp: control_time_def split: option.splits if_splits)

lemma controls_time_bound:
  assumes "controls_time texts = Some v"
  shows "0 < v \<and> v < 86400"
proof -
  define timeTexts where
    "timeTexts = filter (\<lambda>t. length t < 30 \<and> str_match time_short t \<noteq> None) (map trim texts)"
  define times where
    "times = concat (map (\<lambda>t. case control_time t of None \<Rightarrow> [] | Some x \<Rightarrow> [x]) timeTexts)"
  have ne: "times \<noteq> []" and v: "v = Max (set times)"
    using assms by (auto simp: controls_time_def Let_def timeTexts_def times_def split: if_splits)
  have "v \<in> set times"
    using ne v Max_in [of "set times"] by simp
  then obtain t where "control_time t = Some v"
    by (auto simp: times_def split: option.splits)
  then show ?thesis by (rule control_time_bound)
qed

lemma floor_bounds:
  fixes x :: real
  shows "0 < x \<Longrightarrow> 0 \<le> \<lfloor>x\<rfloor>" and "x < 86400 \<Longrightarrow> \<lfloor>x\<rfloor> < 86400"
  by linarith+

lemma slider_time_bound: "slider_time pf bar = Some v \<Longrightarrow> 0 \<le> v"
  by (auto simp: slider_time_def split: option.splits if_splits intro: floor_bounds)

lemma property_time_bound: "property_time pf bar props = Some v \<Longrightarrow> 0 \<le> v \<and> v < 86400"
  by (induction props) (auto split: option.splits if_splits intro: floor_bounds)

lemma attribute_time_bound: "attribute_time pf as = Some v \<Longrightarrow> 0 \<le> v \<and> v < 86400"
proof (induction as)
  case Nil
  then show ?case by simp
next
  case (Cons a as)
  obtain attr x where a: "a = (attr, x)" by (cases a)
  from Cons show ?case
    by (auto simp: a split: option.splits if_splits intro: floor_bounds)
qed

lemma fallback_time_bound: "fallback_time p = Some v \<Longrightarrow> 0 \<le> v"
  by (auto simp: fallback_time_def split: option.splits if_splits intro: floor_bounds)

lemma disney_time_cases:
  assumes "disney_time pf p = Some v"
  shows "(\<exists>bar. progressBar p = Some bar \<and> slider_time pf bar = Some v) \<or> (0 \<le> v \<and> v < 86400)"
  using assms
  by (auto simp: disney_time_def split: option.splits
      dest: property_time_bound attribute_time_bound controls_time_bound)


text \<open>
  C7, as the code has it.  Every value \<open>getRealTimestamp\<close> returns is absent or a
  non-negative integer.  It is below 86400 when it comes from a property or an attribute of
  the Disney+ progress bar, from the Disney+ controls, or from the Hulu time display (at
  most 6039); the Netflix time display gives at most 362439 (\<open>99:99:99\<close>), and the Disney+
  shadow slider and the media element give the floor of a positive number with no upper
  bound.  When the result is absent, \<open>handleAddComment\<close> does not call \<open>saveComment\<close>; when
  it calls it, the timestamp passed is the one returned.
\<close>

theorem playback_position_bounds:
  "(\<forall>v. getRealTimestamp pf p = Some v \<longrightarrow>
      0 \<le> v \<and>
      (v < 86400 \<or>
       (page_platform p = Some DisneyPlus \<and> (\<exists>bar. progressBar p = Some bar \<and> slider_time pf bar = Some v)) \<or>
       (page_platform p = Some Netflix \<and> netflix_time p = Some v \<and> v \<le> 362439) \<or>
       fallback_time p = Some v)) \<and>
   (getRealTimestamp pf p = None \<longrightarrow>
      (\<forall>t ts. fst (handleAddComment pf p cf comment) \<noteq> SaveComment t ts)) \<and>
   (\<forall>t ts. fst (handleAddComment pf p cf comment) = SaveComment t ts \<longrightarrow>
      t = comment \<and> getRealTimestamp pf p = Some ts)"
proof (intro conjI allI impI)
  fix v assume g: "getRealTimestamp pf p = Some v"
  consider
    (disney) "page_platform p = Some DisneyPlus" "disney_time pf p = Some v"
  | (netflix) "page_platform p = Some Netflix" "netflix_time p = Some v"
  | (hulu) "page_platform p = Some Hulu" "hulu_time p = Some v"
  | (fallback) "fallback_time p = Some v"
    using g by (auto simp: getRealTimestamp_def split: option.splits if_splits)
  then have "0 \<le> v \<and>
      (v < 86400 \<or>
       (page_platform p = Some DisneyPlus \<and> (\<exists>bar. progressBar p = Some bar \<and> slider_time pf bar = Some v)) \<or>
       (page_platform p = Some Netflix \<and> netflix_time p = Some v \<and> v \<le> 362439) \<or>
       fallback_time p = Some v)"
  proof cases
    case disney
    from disney_time_cases [OF disney(2)] disney(1) show ?thesis
      by (auto dest: slider_time_bound)
  next
    case netflix
    from netflix_time_bound [OF netflix(2)] netflix show ?thesis by simp
  next
    case hulu
    from hulu_time_bound [OF hulu(2)] show ?thesis by simp
  next
    case fallback
    from fallback_time_bound [OF fallback] fallback show ?thesis by simp
  qed
  then show "0 \<le> v" and "v < 86400 \<or>
       (page_platform p = Some DisneyPlus \<and> (\<exists>bar. progressBar p = Some bar \<and> slider_time pf bar = Some v)) \<or>
       (page_platform p = Some Netflix \<and> netflix_time p = Some v \<and> v \<le> 362439) \<or>
       fallback_time p = Some v"
    by simp_all
next
  fix t ts assume "getRealTimestamp pf p = None"
  then show "fst (handleAddComment pf p cf comment) \<noteq> SaveComment t ts"
    by (auto simp: handleAddComment_def split: prod.splits sum.splits)
next
  fix t ts assume h: "fst (handleAddComment pf p cf comment) = SaveComment t ts"
  then show "t = comment" and "getRealTimestamp pf p = Some ts"
    by (auto simp: handleAddComment_def split: prod.splits sum.splits option.splits if_splits)
qed

theorem playback_position_bounds_witness:
  "getRealTimestamp parse_decimal
     \<lparr>page_platform = Some Hulu, progressBar = None, controls = None,
      netflix_time_remaining = None, hulu_time_display = Some ''12:34'', videos = []\<rparr> = Some 754 \<and>
   (0::int) \<le> 754 \<and> (754::int) < 86400 \<and>
   fst (handleAddComment parse_decimal
     \<lparr>page_platform = Some Hulu, progressBar = None, controls = None,
      netflix_time_remaining = None, hulu_time_display = Some ''12:34'', videos = []\<rparr>
     ContentFilter_new ''nice'') = SaveComment ''nice'' 754 \<and>
   getRealTimestamp parse_decimal
     \<lparr>page_platform = Some Netflix, progressBar = None, controls = None,
      netflix_time_remaining = None, hulu_time_display = None, videos = []\<rparr> = None \<and>
   fst (handleAddComment parse_decimal
     \<lparr>page_platform = Some Netflix, progressBar = None, controls = None,
      netflix_time_remaining = None, hulu_time_display = None, videos = []\<rparr>
     ContentFilter_new ''nice'') \<noteq> SaveComment ''nice'' 0"
proof -
  let ?h = "\<lparr>page_platform = Some Hulu, progressBar = None, controls = None,
      netflix_time_remaining = None, hulu_time_display = Some ''12:34'', videos = []\<rparr>"
  let ?n = "\<lparr>page_platform = Some Netflix, progressBar = None, controls = None,
      netflix_time_remaining = None, hulu_time_display = None, videos = []\<rparr>"
  have a: "fst (handleAddComment parse_decimal ?h ContentFilter_new ''nice'') = SaveComment ''nice'' 754"
    by code_simp
  have b: "getRealTimestamp parse_decimal ?n = None"
    by code_simp
  from playback_position_bounds [of parse_decimal ?h ContentFilter_new "''nice''"] a
  have c: "getRealTimestamp parse_decimal ?h = Some 754" by blast
  from playback_position_bounds [of parse_decimal ?h ContentFilter_new "''nice''"] c
  have d: "(0::int) \<le> 754" by blast
  from playback_position_bounds [of parse_decimal ?n ContentFilter_new "''nice''"] b
  have e: "fst (handleAddComment parse_decimal ?n ContentFilter_new ''nice'') \<noteq> SaveComment ''nice'' 0"
    by blast
  show ?thesis using a b c d e by simp
qed

text \<open>
  C7, as the claim states it, fails on the Netflix branch and on the media-element
  fallback: the time display \<open>24:00:00\<close> gives 86400, and a media element at 90000.5
  seconds gives 90000.
\<close>

theorem netflix_and_fallback_exceed_a_day:
  "getRealTimestamp parse_decimal
     \<lparr>page_platform = Some Netflix, progressBar = None, controls = None,
      netflix_time_remaining = Some ''24:00:00'', hulu_time_display = None, videos = []\<rparr> = Some 86400 \<and>
   getRealTimestamp parse_decimal
     \<lparr>page_platform = Some Hulu, progressBar = None, controls = None,
      netflix_time_remaining = None, hulu_time_display = None,
      videos = [\<lparr>readyState = 4, paused = False, currentTime = 90000.5\<rparr>]\<rparr> = Some 90000 \<and>
   \<not> (86400::int) < 86400 \<and> \<not> (90000::int) < 86400"
  by code_simp

end
